theory Spec2Isabelle
  imports Complex_Main "HOL-Library.AList" "HOL-Library.Sublist"
begin

section \<open>The process and the remote store\<close>

text \<open>
  The Python code talks to a remote key-value store through one process-wide client
  object, \<^verbatim>\<open>REDIS_CONN.REDIS\<close>. The model threads one \<open>proc\<close> record through every
  function: the client handle, the state of the remote store, the log records written so
  far, the commands sent so far, the sleeps taken and the number of (re)connects.
  A function that may raise returns \<open>(Inl e, state)\<close>: what it changed before raising stays
  changed, as in Python.
\<close>

datatype exn = Exn string
  \<comment> \<open>an exception; the string is \<^verbatim>\<open>str(e)\<close>\<close>

datatype level = DEBUG | INFO | WARNING | ERROR

type_synonym key = string

type_synonym cmd = "string \<times> key"
  \<comment> \<open>the client method called and the key it is called on\<close>

record 's proc =
  config_ok :: bool
    \<comment> \<open>whether \<^verbatim>\<open>settings.REDIS\<close> lets \<^verbatim>\<open>StrictRedis(...)\<close> be constructed\<close>
  REDIS :: bool
    \<comment> \<open>whether \<^verbatim>\<open>self.REDIS\<close> holds a client object (False: it is None)\<close>
  server :: 's
  logs :: "(level \<times> string) list"
  sent :: "cmd list"
  slept :: "(real \<times> real) list"
    \<comment> \<open>every \<^verbatim>\<open>time.sleep(d)\<close>: the clock when it was called, and \<open>d\<close>\<close>
  opens :: nat
    \<comment> \<open>number of calls of \<^verbatim>\<open>__open__\<close>\<close>

definition logging :: "level \<Rightarrow> string \<Rightarrow> 's proc \<Rightarrow> 's proc" where
  "logging lv msg p = p\<lparr>logs := logs p @ [(lv, msg)]\<rparr>"

definition call ::
  "cmd \<Rightarrow> ('s \<Rightarrow> (exn + 'r) \<times> 's) \<Rightarrow> 's proc \<Rightarrow> (exn + 'r) \<times> 's proc" where
  "call c f p =
     (if \<not> REDIS p
      then (Inl (Exn (''NoneType object has no attribute '' @ fst c)), p)
      else case f (server p) of
             (r, s') \<Rightarrow> (r, p\<lparr>server := s', sent := sent p @ [c]\<rparr>))"

definition str :: "exn \<Rightarrow> string" where
  "str e = (case e of Exn m \<Rightarrow> m)"

definition dunder_open :: "'s proc \<Rightarrow> 's proc" where
  \<comment> \<open>\<^verbatim>\<open>RedisDB.__open__\<close>: a new client object, unless the configuration makes the
      constructor raise; then a warning, and \<^verbatim>\<open>self.REDIS\<close> stays what it was\<close>
  "dunder_open p =
     (let p1 = p\<lparr>opens := opens p + 1\<rparr> in
      if config_ok p1 then p1\<lparr>REDIS := True\<rparr>
      else logging WARNING (''Redis can'' @ [CHR 0x27] @ ''t be connected.'') p1)"

definition RedisDB :: "bool \<Rightarrow> 's \<Rightarrow> 's proc" where
  \<comment> \<open>\<^verbatim>\<open>RedisDB.__init__\<close>, given whether the configuration is usable and the store the
      process talks to\<close>
  "RedisDB cfg s =
     dunder_open \<lparr>config_ok = cfg, REDIS = False, server = s, logs = [], sent = [], slept = [],
                  opens = 0\<rparr>"

subsection \<open>The store: strings with expiry, streams with consumer groups\<close>

record group =
  last_delivered :: nat
  pending :: "(nat \<times> string) list"
    \<comment> \<open>the pending-entries list: (entry id, consumer), oldest first\<close>

record stream =
  entries :: "(nat \<times> (string \<times> string) list) list"
    \<comment> \<open>(entry id, fields), oldest first\<close>
  last_id :: nat
  groups :: "(string \<times> group) list"

record store =
  strs :: "key \<rightharpoonup> (string \<times> real)"
    \<comment> \<open>value and the time at which it expires\<close>
  streams :: "key \<rightharpoonup> stream"
  up :: bool
    \<comment> \<open>whether the store answers; when it does not, every command raises\<close>
  now :: real
    \<comment> \<open>the clock, in seconds\<close>

definition refused :: exn where
  "refused = Exn ''Connection refused''"

definition live :: "store \<Rightarrow> key \<Rightarrow> string option" where
  "live s k =
     (case strs s k of
        None \<Rightarrow> None
      | Some (v, e) \<Rightarrow> if now s < e then Some v else None)"

definition r_set :: "key \<Rightarrow> string \<Rightarrow> bool \<Rightarrow> int \<Rightarrow> store \<Rightarrow> (exn + bool) \<times> store" where
  \<comment> \<open>\<^verbatim>\<open>SET k v [NX] EX ex\<close>: True when set, False (Python None) when NX found the key\<close>
  "r_set k v nx ex s =
     (if \<not> up s then (Inl refused, s)
      else if ex \<le> 0 then (Inl (Exn ''invalid expire time in set''), s)
      else if nx \<and> live s k \<noteq> None then (Inr False, s)
      else (Inr True, s\<lparr>strs := (strs s)(k \<mapsto> (v, now s + real_of_int ex))\<rparr>))"

definition r_get :: "key \<Rightarrow> store \<Rightarrow> (exn + string option) \<times> store" where
  "r_get k s = (if \<not> up s then (Inl refused, s) else (Inr (live s k), s))"

definition r_ttl :: "key \<Rightarrow> store \<Rightarrow> (exn + int) \<times> store" where
  "r_ttl k s =
     (if \<not> up s then (Inl refused, s)
      else case strs s k of
             None \<Rightarrow> (Inr (- 2), s)
           | Some (v, e) \<Rightarrow> if now s < e then (Inr (round (e - now s)), s) else (Inr (- 2), s))"

definition del :: "key \<Rightarrow> store \<Rightarrow> int \<times> store" where
  "del k s =
     (if live s k = None \<and> streams s k = None then (0, s)
      else (1, s\<lparr>strs := (strs s)(k := None), streams := (streams s)(k := None)\<rparr>))"

definition r_delete :: "key \<Rightarrow> store \<Rightarrow> (exn + int) \<times> store" where
  "r_delete k s = (if \<not> up s then (Inl refused, s) else case del k s of (n, s') \<Rightarrow> (Inr n, s'))"

definition r_client_list :: "store \<Rightarrow> (exn + unit) \<times> store" where
  "r_client_list s = (if \<not> up s then (Inl refused, s) else (Inr (), s))"

definition lua_script :: "key \<Rightarrow> string \<Rightarrow> store \<Rightarrow> int \<times> store" where
  \<comment> \<open>\<^verbatim>\<open>if redis.call("get",KEYS[1]) == ARGV[1] then return redis.call("del",KEYS[1]) else return 0 end\<close>\<close>
  "lua_script k v s = (if live s k = Some v then del k s else (0, s))"

definition r_eval :: "(store \<Rightarrow> int \<times> store) \<Rightarrow> store \<Rightarrow> (exn + int) \<times> store" where
  \<comment> \<open>the store runs a script as one command\<close>
  "r_eval script s = (if \<not> up s then (Inl refused, s) else case script s of (n, s') \<Rightarrow> (Inr n, s'))"

section \<open>RedisDistributedLock\<close>

record lock =
  lock_key :: key
  lock_value :: string
  ttl :: int
  acquire_timeout :: real
  lock_acquired :: bool

definition RedisDistributedLock :: "string \<Rightarrow> key \<Rightarrow> int \<Rightarrow> real \<Rightarrow> lock" where
  \<comment> \<open>\<^verbatim>\<open>__init__\<close>; the first argument is the value \<^verbatim>\<open>str(uuid.uuid4())\<close> draws\<close>
  "RedisDistributedLock token k t timeout =
     \<lparr>lock_key = k, lock_value = token, ttl = t, acquire_timeout = timeout,
      lock_acquired = False\<rparr>"

definition clean_lock :: "key \<Rightarrow> store proc \<Rightarrow> (exn + unit) \<times> store proc" where
  "clean_lock k p =
     (case call (''delete'', k) (r_delete k) p of
        (Inl e, p1) \<Rightarrow> (Inl e, p1)
      | (Inr n, p1) \<Rightarrow> (Inr (), p1))"

definition sleep :: "real \<Rightarrow> (store \<Rightarrow> store) \<Rightarrow> store proc \<Rightarrow> store proc" where
  \<comment> \<open>\<^verbatim>\<open>time.sleep(d)\<close>: the clock advances by \<open>d\<close>; meanwhile the other clients of the
      store do \<open>others\<close> to it\<close>
  "sleep d others p =
     p\<lparr>server := (others (server p))\<lparr>now := now (server p) + d\<rparr>,
       slept := slept p @ [(now (server p), d)]\<rparr>"

definition attempt_lock ::
  "lock \<Rightarrow> store proc \<Rightarrow> (exn + bool) \<times> store proc" where
  \<comment> \<open>one pass of the loop body of \<^verbatim>\<open>acquire_lock\<close>, up to the sleep\<close>
  "attempt_lock l p =
     (case call (''set'', lock_key l) (r_set (lock_key l) (lock_value l) True (ttl l)) p of
        (Inl e, p1) \<Rightarrow> (Inl e, p1)
      | (Inr acquired, p1) \<Rightarrow>
          if acquired
          then (Inr True, logging DEBUG (''Lock acquired for '' @ lock_key l) p1)
          else
            (case call (''get'', lock_key l) (r_get (lock_key l)) p1 of
               (Inl e, p2) \<Rightarrow> (Inl e, p2)
             | (Inr current_value, p2) \<Rightarrow>
                 (case call (''ttl'', lock_key l) (r_ttl (lock_key l)) p2 of
                    (Inl e, p3) \<Rightarrow> (Inl e, p3)
                  | (Inr ttl_remaining, p3) \<Rightarrow>
                      (Inr False,
                       logging WARNING (''Lock contention detected for '' @ lock_key l) p3))))"

lemma call_now:
  assumes "call c f p = (r, p')" and "\<And>s. now (snd (f s)) = now s"
  shows "now (server p') = now (server p)"
proof (cases "f (server p)")
  case (Pair r0 s')
  with assms(2) [of "server p"] have "now s' = now (server p)" by simp
  with assms(1) Pair show ?thesis by (auto simp: call_def split: if_splits)
qed

lemma r_set_now: "now (snd (r_set k v nx ex s)) = now s"
  by (simp add: r_set_def)

lemma r_get_now: "now (snd (r_get k s)) = now s"
  by (simp add: r_get_def)

lemma r_ttl_now: "now (snd (r_ttl k s)) = now s"
  by (simp add: r_ttl_def split: option.splits)

lemma logging_server [simp]: "server (logging lv msg p) = server p"
  by (simp add: logging_def)

lemma attempt_lock_now:
  assumes "attempt_lock l p = (r, p')"
  shows "now (server p') = now (server p)"
  using assms
  by (auto simp: attempt_lock_def split: prod.splits sum.splits if_splits
           dest!: call_now [OF _ r_set_now] call_now [OF _ r_get_now] call_now [OF _ r_ttl_now])

function acquire_loop ::
  "(nat \<Rightarrow> store \<Rightarrow> store) \<Rightarrow> lock \<Rightarrow> real \<Rightarrow> nat \<Rightarrow> store proc
     \<Rightarrow> (exn + bool) \<times> lock \<times> store proc" where
  "acquire_loop others l end_time attempt p =
     (if now (server p) < end_time
      then
        (case attempt_lock l p of
           (Inl e, p1) \<Rightarrow> (Inl e, l, p1)
         | (Inr acquired, p1) \<Rightarrow>
             if acquired then (Inr True, l\<lparr>lock_acquired := True\<rparr>, p1)
             else acquire_loop others l end_time (attempt + 1)
                    (sleep (max (1 / 10) ((end_time - now (server p1)) / 10))
                       (others (attempt + 1)) p1))
      else (Inr False, l, p))"
  by pat_completeness auto
termination
proof (relation "measure (\<lambda>(others, l, end_time, attempt, p).
                   nat \<lceil>(end_time - now (server p)) * 10\<rceil>)", goal_cases)
  case 1
  show ?case by simp
next
  case (2 others l end_time attempt p x1 p1 acquired)
  have same: "now (server p1) = now (server p)"
    using attempt_lock_now [of l p x1 p1] 2(2) by simp
  let ?d = "max (1 / 10) ((end_time - now (server p)) / 10)"
  have d: "1 / 10 \<le> ?d" by simp
  have "(end_time - (now (server p) + ?d)) * 10 \<le> (end_time - now (server p)) * 10 - 1"
    using d by (simp add: algebra_simps)
  then have "\<lceil>(end_time - (now (server p) + ?d)) * 10\<rceil> \<le> \<lceil>(end_time - now (server p)) * 10\<rceil> - 1"
    by (metis ceiling_mono ceiling_diff_one)
  moreover have "0 < \<lceil>(end_time - now (server p)) * 10\<rceil>"
    using 2(1) by simp
  ultimately show ?case
    by (simp add: sleep_def same)
qed

declare acquire_loop.simps [simp del]

definition acquire_lock ::
  "(nat \<Rightarrow> store \<Rightarrow> store) \<Rightarrow> lock \<Rightarrow> store proc \<Rightarrow> (exn + bool) \<times> lock \<times> store proc" where
  \<comment> \<open>\<open>others n\<close> is what the other clients do to the store during the sleep that follows
      the \<open>n\<close>-th failed attempt\<close>
  "acquire_lock others l p =
     (let end_time = now (server p) + acquire_timeout l in
      case acquire_loop others l end_time 0 p of
        (Inl e, l1, p1) \<Rightarrow> (Inl e, l1, p1)
      | (Inr acquired, l1, p1) \<Rightarrow>
          if acquired then (Inr True, l1, p1)
          else
            (case call (''get'', lock_key l) (r_get (lock_key l)) p1 of
               (Inl e, p2) \<Rightarrow> (Inl e, l1, p2)
             | (Inr current_value, p2) \<Rightarrow>
                 (case call (''ttl'', lock_key l) (r_ttl (lock_key l)) p2 of
                    (Inl e, p3) \<Rightarrow> (Inl e, l1, p3)
                  | (Inr ttl_remaining, p3) \<Rightarrow>
                      (case call (''client_list'', []) r_client_list p3 of
                         (Inl e, p4) \<Rightarrow> (Inl e, l1, p4)
                       | (Inr clients, p4) \<Rightarrow>
                           (Inr False, l1,
                            logging ERROR (''Failed to acquire lock '' @ lock_key l) p4)))))"



definition release_lock :: "lock \<Rightarrow> store proc \<Rightarrow> lock \<times> store proc" where
  "release_lock l p =
     (if \<not> lock_acquired l
      then (l, logging WARNING (''Attempted to release unacquired lock: '' @ lock_key l) p)
      else
        let p0 = logging INFO (''Releasing lock '' @ lock_key l) p;
            p' =
              (case call (''eval'', lock_key l)
                      (r_eval (lua_script (lock_key l) (lock_value l))) p0 of
                 (Inl e, p1) \<Rightarrow> logging ERROR (''Release lock failed: '' @ str e) p1
               | (Inr result, p1) \<Rightarrow>
                   if result = 1
                   then logging INFO (''Lock '' @ lock_key l @ '' released successfully'') p1
                   else
                     (case call (''get'', lock_key l) (r_get (lock_key l)) p1 of
                        (Inl e, p2) \<Rightarrow> logging ERROR (''Release lock failed: '' @ str e) p2
                      | (Inr current_value, p2) \<Rightarrow>
                          logging ERROR (''Failed to release lock '' @ lock_key l) p2))
        in (l\<lparr>lock_acquired := False\<rparr>, p'))"

definition enter :: "(nat \<Rightarrow> store \<Rightarrow> store) \<Rightarrow> lock \<Rightarrow> store proc \<Rightarrow> (exn + bool) \<times> lock \<times> store proc" where
  \<comment> \<open>\<^verbatim>\<open>__enter__\<close>: returns \<^verbatim>\<open>self\<close> (True here) when acquired, None (False) otherwise\<close>
  "enter others l p = acquire_lock others l p"

definition exit :: "lock \<Rightarrow> store proc \<Rightarrow> lock \<times> store proc" where
  \<comment> \<open>\<^verbatim>\<open>__exit__\<close>: returns None, so an exception of the body is raised again\<close>
  "exit l p = release_lock l p"

subsection \<open>Concrete states used to run the code\<close>

definition fresh_store :: store where
  "fresh_store = \<lparr>strs = Map.empty, streams = Map.empty, up = True, now = 0\<rparr>"

definition REDIS_CONN :: "store \<Rightarrow> store proc" where
  \<comment> \<open>\<^verbatim>\<open>REDIS_CONN = RedisDB()\<close> with a usable configuration\<close>
  "REDIS_CONN s = RedisDB True s"

definition held_by :: "string \<Rightarrow> store proc" where
  \<comment> \<open>the lock of knowledge base \<open>kb1\<close> is held with the given token for 30 minutes\<close>
  "held_by token = REDIS_CONN (fresh_store\<lparr>strs := [''kb1'' \<mapsto> (token, 1800)]\<rparr>)"

definition lock_A :: lock where
  "lock_A = (RedisDistributedLock ''token-A'' ''kb1'' 1800 10)\<lparr>lock_acquired := True\<rparr>"

definition nobody :: "nat \<Rightarrow> store \<Rightarrow> store" where
  \<comment> \<open>no other client touches the store during the sleeps\<close>
  "nobody n s = s"

definition lock_0 :: lock where
  \<comment> \<open>the lock the pipelines build: \<^verbatim>\<open>RedisDistributedLock(kb_id, 60*30)\<close>\<close>
  "lock_0 = RedisDistributedLock ''token-A'' ''kb1'' (60 * 30) 10"



definition free_run :: "(exn + bool) \<times> lock \<times> store proc" where
  "free_run = acquire_lock nobody lock_0 (REDIS_CONN fresh_store)"


definition again :: "nat \<Rightarrow> lock \<times> store proc \<Rightarrow> lock \<times> store proc" where
  \<comment> \<open>\<open>n\<close> further calls of \<^verbatim>\<open>release_lock\<close> on the same lock object\<close>
  "again n = (\<lambda>(l, p). release_lock l p) ^^ n"

section \<open>The graph pipelines\<close>

text \<open>
  \<^verbatim>\<open>graphrag/general/index.py\<close>. The extraction, merge, metric, resolution and report
  functions are collaborators: the pipelines only call them, so they are parameters here,
  each one either returning its result or raising. What a pipeline leaves behind is
  recorded in a \<open>world\<close>: the store process above, the persisted graphs, the operations done
  on the document index, the collaborators called and the calls of the progress callback.
\<close>

record entity =
  entity_name :: string
  entity_type :: string

record relation =
  src_id :: string
  tgt_id :: string
  weight :: real

record graph =
  nodes :: "(string \<times> (string \<times> string) list) list"
    \<comment> \<open>node name and its attributes\<close>
  edges :: "((string \<times> string) \<times> real) list"
    \<comment> \<open>end points and the \<^verbatim>\<open>weight\<close> attribute\<close>

definition Graph :: graph where
  "Graph = \<lparr>nodes = [], edges = []\<rparr>"

definition number_of_nodes :: "graph \<Rightarrow> nat" where
  "number_of_nodes g = length (nodes g)"

definition add_node :: "string \<Rightarrow> (string \<times> string) list \<Rightarrow> graph \<Rightarrow> graph" where
  "add_node n attrs g =
     (case map_of (nodes g) n of
        None \<Rightarrow> g\<lparr>nodes := nodes g @ [(n, attrs)]\<rparr>
      | Some old \<Rightarrow>
          g\<lparr>nodes := AList.update n (fold (\<lambda>(k, v). AList.update k v) attrs old) (nodes g)\<rparr>)"

definition add_edge :: "string \<Rightarrow> string \<Rightarrow> real \<Rightarrow> graph \<Rightarrow> graph" where
  "add_edge u v wt g =
     (let g1 = add_node v [] (add_node u [] g) in
      if (u, v) \<in> fst ` set (edges g1) then g1\<lparr>edges := AList.update (u, v) wt (edges g1)\<rparr>
      else if (v, u) \<in> fst ` set (edges g1) then g1\<lparr>edges := AList.update (v, u) wt (edges g1)\<rparr>
      else g1\<lparr>edges := edges g1 @ [((u, v), wt)]\<rparr>)"

definition list_set :: "'a list \<Rightarrow> 'a list" where
  \<comment> \<open>\<^verbatim>\<open>list(set(xs))\<close>. Python fixes no order for it; the model keeps the order of the last
      occurrences, and no property below depends on the order.\<close>
  "list_set xs = remdups xs"

record community =
  title :: string
  findings :: "string list"
    \<comment> \<open>the \<^verbatim>\<open>explanation\<close> of each finding\<close>
  struct_weight :: real
  entities :: "string list"

record collab =
  extractor :: "(string \<times> string) list \<Rightarrow> exn + (entity list \<times> relation list)"
  graph_merge :: "graph \<Rightarrow> graph \<Rightarrow> exn + graph"
  update_nodes_pagerank_nhop_neighbour :: "graph \<Rightarrow> exn + graph"
  EntityResolution :: "graph \<Rightarrow> exn + (graph \<times> string list)"
    \<comment> \<open>the resolved graph and \<^verbatim>\<open>removed_entities\<close>\<close>
  CommunityReportsExtractor :: "graph \<Rightarrow> exn + (community list \<times> string list)"
    \<comment> \<open>\<^verbatim>\<open>structured_output\<close> and \<^verbatim>\<open>output\<close>\<close>

datatype index_op =
    Delete "(string \<times> string list) list" string
      \<comment> \<open>\<^verbatim>\<open>docStoreConn.delete(condition, index_name, kb_id)\<close>: the condition and the kb\<close>
  | Insert string string string real "string list" string "string list option"
      \<comment> \<open>\<^verbatim>\<open>docStoreConn.insert\<close> of a community report: title, report, evidences, weight,
          entities, kb and source document ids\<close>

record world =
  proc :: "store proc"
  graph_store :: "(string \<times> string) \<rightharpoonup> (graph \<times> string list option)"
  index :: "index_op list"
  trace :: "string list"
    \<comment> \<open>the collaborators and graph-store functions called, in order\<close>
  progress :: "(int option \<times> string) list"
    \<comment> \<open>the calls of \<^verbatim>\<open>callback\<close>: status code (when given) and message\<close>

definition traced :: "string \<Rightarrow> world \<Rightarrow> world" where
  "traced name w = w\<lparr>trace := trace w @ [name]\<rparr>"

definition get_graph :: "string \<Rightarrow> string \<Rightarrow> world \<Rightarrow> (graph option \<times> string list option) \<times> world" where
  \<comment> \<open>Modelled from the spec: \<^verbatim>\<open>graphrag.utils.get_graph\<close> is not among the sources. The
      GraphStore loads the serialized graph and its document ids, keyed by tenant and
      knowledge base; when nothing is persisted the caller sees \<^verbatim>\<open>(None, None)\<close>.\<close>
  "get_graph tenant_id kb_id w =
     (case graph_store w (tenant_id, kb_id) of
        None \<Rightarrow> ((None, None), traced ''get_graph'' w)
      | Some (g, ids) \<Rightarrow> ((Some g, ids), traced ''get_graph'' w))"

definition set_graph :: "string \<Rightarrow> string \<Rightarrow> graph \<Rightarrow> string list option \<Rightarrow> world \<Rightarrow> world" where
  \<comment> \<open>Modelled from the spec: \<^verbatim>\<open>graphrag.utils.set_graph\<close> is not among the sources. The
      GraphStore saves the graph and the document ids under tenant and knowledge base,
      in place of what was there.\<close>
  "set_graph tenant_id kb_id g ids w =
     (traced ''set_graph'' w)\<lparr>graph_store := (graph_store w)((tenant_id, kb_id) \<mapsto> (g, ids))\<rparr>"

definition callback :: "bool \<Rightarrow> int option \<Rightarrow> string \<Rightarrow> world \<Rightarrow> world" where
  \<comment> \<open>\<^verbatim>\<open>if callback: callback(code, msg=...)\<close>; the first argument says whether a callback
      was passed\<close>
  "callback given code msg w =
     (if given then w\<lparr>progress := progress w @ [(code, msg)]\<rparr> else w)"

definition wlog :: "level \<Rightarrow> string \<Rightarrow> world \<Rightarrow> world" where
  "wlog lv msg w = w\<lparr>proc := logging lv msg (proc w)\<rparr>"

datatype 'a flow = Return | Fall 'a
  \<comment> \<open>how the body of a with-statement ends: by \<^verbatim>\<open>return\<close>, or by running to its end
      (with the values the code after it uses)\<close>

definition with_lock ::
  "(nat \<Rightarrow> store \<Rightarrow> store) \<Rightarrow> lock \<Rightarrow> (world \<Rightarrow> (exn + 'a) \<times> world) \<Rightarrow> world
     \<Rightarrow> (exn + 'a) \<times> world" where
  \<comment> \<open>\<^verbatim>\<open>with RedisDistributedLock(...): body\<close>. Python calls \<^verbatim>\<open>__enter__\<close>; if that raises,
      nothing else runs. Otherwise its value is dropped (there is no \<^verbatim>\<open>as\<close>), the body
      runs, and \<^verbatim>\<open>__exit__\<close> runs however the body ended; \<^verbatim>\<open>__exit__\<close> returns None, so an
      exception of the body goes on.\<close>
  "with_lock others l body w =
     (case enter others l (proc w) of
        (Inl e, l1, p1) \<Rightarrow> (Inl e, w\<lparr>proc := p1\<rparr>)
      | (Inr entered, l1, p1) \<Rightarrow>
          (case body (w\<lparr>proc := p1\<rparr>) of
             (r, w2) \<Rightarrow>
               (case exit l1 (proc w2) of
                  (l2, p2) \<Rightarrow> (r, w2\<lparr>proc := p2\<rparr>))))"

definition build_graph :: "entity list \<Rightarrow> relation list \<Rightarrow> graph" where
  \<comment> \<open>the two loops of \<^verbatim>\<open>Dealer.__init__\<close> over \<^verbatim>\<open>ents\<close> and \<^verbatim>\<open>rels\<close>\<close>
  "build_graph ents rels =
     fold (\<lambda>rel. add_edge (src_id rel) (tgt_id rel) (weight rel)) rels
       (fold (\<lambda>en. add_node (entity_name en) [(''entity_type'', entity_type en)]) ents Graph)"

definition Dealer_locked ::
  "collab \<Rightarrow> string \<Rightarrow> string \<Rightarrow> graph \<Rightarrow> string list \<Rightarrow> world \<Rightarrow> (exn + graph) \<times> world" where
  \<comment> \<open>the body of the with-statement of \<^verbatim>\<open>Dealer.__init__\<close>; its value is \<^verbatim>\<open>self.graph\<close>\<close>
  "Dealer_locked C tenant_id kb_id graph docids w =
     (case get_graph tenant_id kb_id w of
        ((old_graph, old_doc_ids), w1) \<Rightarrow>
          (case (case old_graph of
                   None \<Rightarrow> (Inr graph, w1)
                 | Some og \<Rightarrow> (graph_merge C og graph, traced ''graph_merge'' w1)) of
             (Inl e, w2) \<Rightarrow> (Inl e, w2)
           | (Inr g2, w2) \<Rightarrow>
               (case update_nodes_pagerank_nhop_neighbour C g2 of
                  Inl e \<Rightarrow> (Inl e, traced ''update_nodes_pagerank_nhop_neighbour'' w2)
                | Inr g3 \<Rightarrow>
                    let w3 = traced ''update_nodes_pagerank_nhop_neighbour'' w2;
                        docids' =
                          (case old_doc_ids of
                             None \<Rightarrow> docids
                           | Some ids \<Rightarrow> if ids \<noteq> [] then list_set (docids @ ids) else docids)
                    in (Inr g3, set_graph tenant_id kb_id g3 (Some docids') w3))))"

definition Dealer ::
  "collab \<Rightarrow> (nat \<Rightarrow> store \<Rightarrow> store) \<Rightarrow> string \<Rightarrow> string \<Rightarrow> string \<Rightarrow> (string \<times> string) list
     \<Rightarrow> world \<Rightarrow> (exn + graph) \<times> world" where
  \<comment> \<open>\<^verbatim>\<open>Dealer(extractor, tenant_id, kb_id, llm_bdl, chunks, language)\<close>; \<open>token\<close> is the
      value the lock draws; the informational log lines are left out\<close>
  "Dealer C others token tenant_id kb_id chunks w =
     (let docids = list_set (map fst chunks) in
      case extractor C chunks of
        Inl e \<Rightarrow> (Inl e, traced ''extractor'' w)
      | Inr (ents, rels) \<Rightarrow>
          with_lock others (RedisDistributedLock token kb_id (60 * 30) 10)
            (Dealer_locked C tenant_id kb_id (build_graph ents rels) docids)
            (traced ''extractor'' w))"

definition falsy :: "graph option \<Rightarrow> bool" where
  \<comment> \<open>\<^verbatim>\<open>not self.graph\<close>: None, or a graph whose \<^verbatim>\<open>len\<close> (its number of nodes) is 0\<close>
  "falsy g = (case g of None \<Rightarrow> True | Some g0 \<Rightarrow> number_of_nodes g0 = 0)"

definition WithResolution_locked ::
  "collab \<Rightarrow> string \<Rightarrow> string \<Rightarrow> bool \<Rightarrow> world \<Rightarrow> (exn + (graph \<times> string list) flow) \<times> world" where
  \<comment> \<open>the body of the with-statement of \<^verbatim>\<open>WithResolution.__init__\<close>\<close>
  "WithResolution_locked C tenant_id kb_id cb w =
     (case get_graph tenant_id kb_id w of
        ((graph, doc_ids), w1) \<Rightarrow>
          if falsy graph
          then (Inr Return,
                callback cb (Some (- 1)) ''Faild to fetch the graph.''
                  (wlog ERROR ''Faild to fetch the graph.'' w1))
          else
            let w2 = traced ''EntityResolution'' (callback cb None ''Fetch the existing graph.'' w1) in
            (case EntityResolution C (the graph) of
               Inl e \<Rightarrow> (Inl e, w2)
             | Inr (g2, removed_entities) \<Rightarrow>
                 let w3 = traced ''update_nodes_pagerank_nhop_neighbour''
                            (callback cb None ''Graph resolution is done. Remove {} nodes.''
                               (wlog INFO ''Graph resolution is done. Remove {} nodes.'' w2))
                 in (case update_nodes_pagerank_nhop_neighbour C g2 of
                       Inl e \<Rightarrow> (Inl e, w3)
                     | Inr g3 \<Rightarrow>
                         (Inr (Fall (g3, removed_entities)),
                          set_graph tenant_id kb_id g3 doc_ids w3))))"

definition docStoreConn :: "index_op \<Rightarrow> world \<Rightarrow> world" where
  "docStoreConn op w = w\<lparr>index := index w @ [op]\<rparr>"

definition WithResolution ::
  "collab \<Rightarrow> (nat \<Rightarrow> store \<Rightarrow> store) \<Rightarrow> string \<Rightarrow> string \<Rightarrow> string \<Rightarrow> bool \<Rightarrow> world
     \<Rightarrow> (exn + unit) \<times> world" where
  "WithResolution C others token tenant_id kb_id cb w =
     (case with_lock others (RedisDistributedLock token kb_id (60 * 30) 10)
             (WithResolution_locked C tenant_id kb_id cb) w of
        (Inl e, w1) \<Rightarrow> (Inl e, w1)
      | (Inr Return, w1) \<Rightarrow> (Inr (), w1)
      | (Inr (Fall (g, removed_entities)), w1) \<Rightarrow>
          (Inr (),
           docStoreConn
             (Delete [(''knowledge_graph_kwd'', [''entity'']), (''kb_id'', [kb_id]),
                      (''entity_kwd'', removed_entities)] kb_id)
             (docStoreConn
                (Delete [(''knowledge_graph_kwd'', [''relation'']), (''kb_id'', [kb_id]),
                         (''to_entity_kwd'', removed_entities)] kb_id)
                (docStoreConn
                   (Delete [(''knowledge_graph_kwd'', [''relation'']), (''kb_id'', [kb_id]),
                            (''from_entity_kwd'', removed_entities)] kb_id)
                   w1))))"

definition WithCommunity_locked ::
  "collab \<Rightarrow> string \<Rightarrow> string \<Rightarrow> bool \<Rightarrow> world
     \<Rightarrow> (exn + ((community list \<times> string list) \<times> string list option) flow) \<times> world" where
  \<comment> \<open>the body of the with-statement of \<^verbatim>\<open>WithCommunity.__init__\<close>\<close>
  "WithCommunity_locked C tenant_id kb_id cb w =
     (case get_graph tenant_id kb_id w of
        ((graph, doc_ids), w1) \<Rightarrow>
          if falsy graph
          then (Inr Return,
                callback cb (Some (- 1)) ''Faild to fetch the graph.''
                  (wlog ERROR ''Faild to fetch the graph.'' w1))
          else
            let w2 = traced ''CommunityReportsExtractor''
                       (callback cb None ''Fetch the existing graph.'' w1)
            in (case CommunityReportsExtractor C (the graph) of
                  Inl e \<Rightarrow> (Inl e, w2)
                | Inr cr \<Rightarrow>
                    (Inr (Fall (cr, doc_ids)),
                     set_graph tenant_id kb_id (the graph) doc_ids w2)))"

definition join :: "string \<Rightarrow> string list \<Rightarrow> string" where
  \<comment> \<open>\<^verbatim>\<open>sep.join(xs)\<close>\<close>
  "join sep xs = (case xs of [] \<Rightarrow> [] | x # rest \<Rightarrow> x @ concat (map (\<lambda>y. sep @ y) rest))"

definition WithCommunity ::
  "collab \<Rightarrow> (nat \<Rightarrow> store \<Rightarrow> store) \<Rightarrow> string \<Rightarrow> string \<Rightarrow> string \<Rightarrow> bool \<Rightarrow> world
     \<Rightarrow> (exn + unit) \<times> world" where
  \<comment> \<open>the tokenized fields and the content-derived id of each inserted record come from
      collaborators and are left out\<close>
  "WithCommunity C others token tenant_id kb_id cb w =
     (case with_lock others (RedisDistributedLock token kb_id (60 * 30) 10)
             (WithCommunity_locked C tenant_id kb_id cb) w of
        (Inl e, w1) \<Rightarrow> (Inl e, w1)
      | (Inr Return, w1) \<Rightarrow> (Inr (), w1)
      | (Inr (Fall ((community_structure, community_reports), doc_ids)), w1) \<Rightarrow>
          (Inr (),
           fold (\<lambda>(stru, rep).
                   docStoreConn
                     (Insert (title stru) rep (join [CHR 0x0A] (findings stru))
                        (struct_weight stru) (entities stru) kb_id doc_ids))
             (zip community_structure community_reports)
             (docStoreConn (Delete [(''knowledge_graph_kwd'', [''community_report'']),
                                    (''kb_id'', [kb_id])] kb_id)
                (callback cb None
                   ''Graph community extraction is done. Indexing {} reports.'' w1))))"

subsection \<open>Concrete collaborators and worlds\<close>

definition toy :: collab where
  "toy =
     \<lparr>extractor = (\<lambda>chunks.
        Inr ([\<lparr>entity_name = ''A'', entity_type = ''person''\<rparr>,
              \<lparr>entity_name = ''B'', entity_type = ''org''\<rparr>],
             [\<lparr>src_id = ''A'', tgt_id = ''B'', weight = 1\<rparr>])),
      graph_merge = (\<lambda>old new. Inr \<lparr>nodes = nodes old @ nodes new, edges = edges old @ edges new\<rparr>),
      update_nodes_pagerank_nhop_neighbour = Inr,
      EntityResolution = (\<lambda>g. Inr (g, [])),
      CommunityReportsExtractor = (\<lambda>g. Inr ([], []))\<rparr>"

definition graph_AB :: graph where
  "graph_AB =
     \<lparr>nodes = [(''A'', [(''entity_type'', ''person'')]), (''B'', [(''entity_type'', ''org'')])],
      edges = [((''A'', ''B''), 1)]\<rparr>"

definition world_of :: "store proc \<Rightarrow> ((string \<times> string) \<rightharpoonup> (graph \<times> string list option)) \<Rightarrow> world" where
  "world_of p gs = \<lparr>proc = p, graph_store = gs, index = [], trace = [], progress = []\<rparr>"

definition two_docs :: "(string \<times> string) list" where
  "two_docs = [(''d1'', ''Alice works at B.''), (''d2'', ''B employs Alice.''), (''d1'', ''More.'')]"

definition world_held :: world where
  \<comment> \<open>nothing persisted yet; another worker holds the lock of \<open>kb1\<close> for 30 minutes\<close>
  "world_held = world_of (held_by ''token-B'') Map.empty"

definition world_known :: world where
  \<comment> \<open>a graph and the document ids \<open>d2\<close>, \<open>d3\<close> are persisted; the lock is free\<close>
  "world_known =
     world_of (REDIS_CONN fresh_store) [(''t1'', ''kb1'') \<mapsto> (graph_AB, Some [''d2'', ''d3''])]"

definition world_empty :: world where
  \<comment> \<open>a graph without nodes is persisted; the lock is free\<close>
  "world_empty = world_of (REDIS_CONN fresh_store) [(''t1'', ''kb1'') \<mapsto> (Graph, Some [''d1''])]"

definition world_new :: world where
  \<comment> \<open>nothing persisted; the lock is free\<close>
  "world_new = world_of (REDIS_CONN fresh_store) Map.empty"

definition unlocked_run :: "(exn + graph) \<times> world" where
  "unlocked_run = Dealer toy nobody ''token-A'' ''t1'' ''kb1'' two_docs world_held"

section \<open>RedisDB: the key-value wrappers\<close>

text \<open>
  The wrappers call the client library and catch whatever it raises. The library's
  commands on strings, sets and sorted sets are parameters (\<open>valkey\<close>): each takes the
  state of the store and gives back the reply, or the exception it raises, and the new
  state. \<open>call\<close> adds the case of \<^verbatim>\<open>self.REDIS\<close> being None.
\<close>

record 's valkey =
  vk_exists :: "key \<Rightarrow> 's \<Rightarrow> (exn + int) \<times> 's"
  vk_get :: "key \<Rightarrow> 's \<Rightarrow> (exn + string option) \<times> 's"
  vk_set :: "key \<Rightarrow> string \<Rightarrow> int \<Rightarrow> bool \<Rightarrow> 's \<Rightarrow> (exn + bool) \<times> 's"
    \<comment> \<open>key, value, expiry in seconds, and whether \<^verbatim>\<open>nx=True\<close>\<close>
  vk_sadd :: "key \<Rightarrow> string \<Rightarrow> 's \<Rightarrow> (exn + int) \<times> 's"
  vk_srem :: "key \<Rightarrow> string \<Rightarrow> 's \<Rightarrow> (exn + int) \<times> 's"
  vk_smembers :: "key \<Rightarrow> 's \<Rightarrow> (exn + string list) \<times> 's"
  vk_zadd :: "key \<Rightarrow> string \<Rightarrow> real \<Rightarrow> 's \<Rightarrow> (exn + int) \<times> 's"
  vk_zcount :: "key \<Rightarrow> real \<Rightarrow> real \<Rightarrow> 's \<Rightarrow> (exn + int) \<times> 's"
  vk_zpopmin :: "key \<Rightarrow> int \<Rightarrow> 's \<Rightarrow> (exn + (string \<times> real) list) \<times> 's"
  vk_zrangebyscore :: "key \<Rightarrow> real \<Rightarrow> real \<Rightarrow> 's \<Rightarrow> (exn + string list) \<times> 's"

definition got_exception :: "string \<Rightarrow> key \<Rightarrow> exn \<Rightarrow> string" where
  \<comment> \<open>\<^verbatim>\<open>"RedisDB.<name> " + str(k) + " got exception: " + str(e)\<close>\<close>
  "got_exception name k e = ''RedisDB.'' @ name @ '' '' @ k @ '' got exception: '' @ str e"


definition get :: "'s valkey \<Rightarrow> key \<Rightarrow> 's proc \<Rightarrow> string option \<times> 's proc" where
  "get V k p =
     (if \<not> REDIS p then (None, p)
      else case call (''get'', k) (vk_get V k) p of
             (Inr v, p1) \<Rightarrow> (v, p1)
           | (Inl e, p1) \<Rightarrow>
               (None, dunder_open (logging WARNING (got_exception ''get'' k e) p1)))"











section \<open>RedisDB: the stream queue\<close>

subsection \<open>Stream commands of the store\<close>

text \<open>
  Entry ids are natural numbers handed out in increasing order (the store's ids are
  time-sequence pairs with the same order). A group remembers the last id it delivered
  and its pending entries; \<^verbatim>\<open>XREADGROUP ... >\<close> delivers entries after the last delivered
  one and makes them pending for the reading consumer.
\<close>

definition no_such_key :: exn where
  "no_such_key = Exn ''no such key''"

definition nogroup :: exn where
  "nogroup = Exn ''NOGROUP No such key or consumer group''"

definition r_xadd :: "key \<Rightarrow> (string \<times> string) list \<Rightarrow> store \<Rightarrow> (exn + nat) \<times> store" where
  "r_xadd q flds s =
     (if \<not> up s then (Inl refused, s)
      else
        let st = (case streams s q of
                    None \<Rightarrow> \<lparr>entries = [], last_id = 0, groups = []\<rparr>
                  | Some st \<Rightarrow> st);
            i = last_id st + 1
        in (Inr i,
            s\<lparr>streams := (streams s)(q \<mapsto> st\<lparr>entries := entries st @ [(i, flds)],
                                                last_id := i\<rparr>)\<rparr>))"

definition r_xinfo_groups :: "key \<Rightarrow> store \<Rightarrow> (exn + (string \<times> group) list) \<times> store" where
  "r_xinfo_groups q s =
     (if \<not> up s then (Inl refused, s)
      else case streams s q of
             None \<Rightarrow> (Inl no_such_key, s)
           | Some st \<Rightarrow> (Inr (groups st), s))"

definition r_xgroup_create ::
  "key \<Rightarrow> string \<Rightarrow> nat \<Rightarrow> bool \<Rightarrow> store \<Rightarrow> (exn + unit) \<times> store" where
  \<comment> \<open>\<^verbatim>\<open>XGROUP CREATE q g id [MKSTREAM]\<close>\<close>
  "r_xgroup_create q g start mkstream s =
     (if \<not> up s then (Inl refused, s)
      else case streams s q of
             None \<Rightarrow>
               if mkstream
               then (Inr (),
                     s\<lparr>streams := (streams s)(q \<mapsto>
                          \<lparr>entries = [], last_id = 0,
                           groups = [(g, \<lparr>last_delivered = start, pending = []\<rparr>)]\<rparr>)\<rparr>)
               else (Inl no_such_key, s)
           | Some st \<Rightarrow>
               if g \<in> fst ` set (groups st)
               then (Inl (Exn ''BUSYGROUP Consumer Group name already exists''), s)
               else (Inr (),
                     s\<lparr>streams := (streams s)(q \<mapsto>
                          st\<lparr>groups := groups st @
                                 [(g, \<lparr>last_delivered = start, pending = []\<rparr>)]\<rparr>)\<rparr>))"

definition r_xreadgroup ::
  "string \<Rightarrow> string \<Rightarrow> nat \<Rightarrow> nat \<Rightarrow> key \<Rightarrow> nat option \<Rightarrow> store
     \<Rightarrow> (exn + (key \<times> (nat \<times> (string \<times> string) list) list) list) \<times> store" where
  \<comment> \<open>\<^verbatim>\<open>XREADGROUP GROUP g c COUNT count BLOCK block STREAMS q id\<close>; the id None is \<^verbatim>\<open>>\<close>.
      With \<^verbatim>\<open>>\<close> and nothing new, the call waits \<open>block\<close> milliseconds (no other client
      adds an entry meanwhile) and answers with no message. With an id, it answers with
      the entries after that id that are pending for \<open>c\<close>.\<close>
  "r_xreadgroup g c count block q start_id s =
     (if \<not> up s then (Inl refused, s)
      else case streams s q of
             None \<Rightarrow> (Inl nogroup, s)
           | Some st \<Rightarrow>
               (case map_of (groups st) g of
                  None \<Rightarrow> (Inl nogroup, s)
                | Some gr \<Rightarrow>
                    (case start_id of
                       None \<Rightarrow>
                         let new = take count
                                     (filter (\<lambda>(i, f). last_delivered gr < i) (entries st))
                         in if new = []
                            then (Inr [], s\<lparr>now := now s + real block / 1000\<rparr>)
                            else
                              (Inr [(q, new)],
                               s\<lparr>streams := (streams s)(q \<mapsto>
                                    st\<lparr>groups :=
                                         AList.update g
                                           (gr\<lparr>last_delivered := fst (last new),
                                               pending := pending gr @
                                                 map (\<lambda>(i, f). (i, c)) new\<rparr>)
                                           (groups st)\<rparr>)\<rparr>)
                     | Some i0 \<Rightarrow>
                         (Inr [(q, take count
                                     (filter (\<lambda>(i, f). i0 < i \<and> (i, c) \<in> set (pending gr))
                                        (entries st)))],
                          s))))"




subsection \<open>Payload and the queue functions\<close>

record 'm Payload =
  queue_name :: key
  group_name :: string
  msg_id :: nat
  message :: 'm

definition Payload ::
  "(string \<Rightarrow> exn + 'm) \<Rightarrow> key \<Rightarrow> string \<Rightarrow> nat \<Rightarrow> (string \<times> string) list \<Rightarrow> exn + 'm Payload" where
  \<comment> \<open>\<^verbatim>\<open>Payload.__init__\<close>; the first argument is \<^verbatim>\<open>json.loads\<close>. A missing field is a
      KeyError, whose text is the quoted field name.\<close>
  "Payload loads q g i flds =
     (case map_of flds ''message'' of
        None \<Rightarrow> Inl (Exn ([CHR 0x27] @ ''message'' @ [CHR 0x27]))
      | Some txt \<Rightarrow>
          (case loads txt of
             Inl e \<Rightarrow> Inl e
           | Inr m \<Rightarrow> Inr \<lparr>queue_name = q, group_name = g, msg_id = i, message = m\<rparr>))"



fun contains :: "string \<Rightarrow> string \<Rightarrow> bool" where
  \<comment> \<open>\<^verbatim>\<open>sub in s\<close>\<close>
  "contains sub [] = (sub = [])"
| "contains sub (c # cs) = (prefix sub (c # cs) \<or> contains sub cs)"

fun queue_product_try ::
  "('m \<Rightarrow> exn + string) \<Rightarrow> key \<Rightarrow> 'm \<Rightarrow> nat \<Rightarrow> store proc \<Rightarrow> bool \<times> store proc" where
  \<comment> \<open>the loop \<^verbatim>\<open>for _ in range(n)\<close> of \<^verbatim>\<open>queue_product\<close>\<close>
  "queue_product_try dumps queue msg 0 p = (False, p)"
| "queue_product_try dumps queue msg (Suc n) p =
     (case (case dumps msg of
              Inl e \<Rightarrow> (Inl e, p)
            | Inr txt \<Rightarrow>
                call (''pipeline.execute'', queue) (r_xadd queue [(''message'', txt)]) p) of
        (Inr i, p1) \<Rightarrow> (True, p1)
      | (Inl e, p1) \<Rightarrow>
          queue_product_try dumps queue msg n
            (logging ERROR (got_exception ''queue_product'' queue e) p1))"

definition queue_product ::
  "('m \<Rightarrow> exn + string) \<Rightarrow> key \<Rightarrow> 'm \<Rightarrow> store proc \<Rightarrow> bool \<times> store proc" where
  \<comment> \<open>the first argument is \<^verbatim>\<open>json.dumps\<close>\<close>
  "queue_product dumps queue msg p = queue_product_try dumps queue msg 3 p"

definition queue_consumer_try ::
  "(string \<Rightarrow> exn + 'm) \<Rightarrow> key \<Rightarrow> string \<Rightarrow> string \<Rightarrow> nat option \<Rightarrow> store proc
     \<Rightarrow> (exn + 'm Payload option) \<times> store proc" where
  \<comment> \<open>the try-block of \<^verbatim>\<open>queue_consumer\<close>\<close>
  "queue_consumer_try loads queue grp consumer start_id p =
     (case call (''xinfo_groups'', queue) (r_xinfo_groups queue) p of
        (Inl e, p1) \<Rightarrow> (Inl e, p1)
      | (Inr group_info, p1) \<Rightarrow>
          (case (if grp \<notin> fst ` set group_info
                 then call (''xgroup_create'', queue) (r_xgroup_create queue grp 0 True) p1
                 else (Inr (), p1)) of
             (Inl e, p2) \<Rightarrow> (Inl e, p2)
           | (Inr u, p2) \<Rightarrow>
               (case call (''xreadgroup'', queue)
                       (r_xreadgroup grp consumer 1 10000 queue start_id) p2 of
                  (Inl e, p3) \<Rightarrow> (Inl e, p3)
                | (Inr messages, p3) \<Rightarrow>
                    (case messages of
                       [] \<Rightarrow> (Inr None, p3)
                     | (strm, element_list) # further \<Rightarrow>
                         (case element_list of
                            [] \<Rightarrow> (Inl (Exn ''list index out of range''), p3)
                          | (i, payload) # rest \<Rightarrow>
                              (case Payload loads queue grp i payload of
                                 Inl e \<Rightarrow> (Inl e, p3)
                               | Inr res \<Rightarrow> (Inr (Some res), p3)))))))"

definition queue_consumer ::
  "(string \<Rightarrow> exn + 'm) \<Rightarrow> key \<Rightarrow> string \<Rightarrow> string \<Rightarrow> nat option \<Rightarrow> store proc
     \<Rightarrow> 'm Payload option \<times> store proc" where
  \<comment> \<open>\<^verbatim>\<open>queue_consumer(queue_name, group_name, consumer_name, msg_id)\<close>; the id None is the
      default \<^verbatim>\<open>b">"\<close>\<close>
  "queue_consumer loads queue grp consumer start_id p =
     (case queue_consumer_try loads queue grp consumer start_id p of
        (Inr res, p1) \<Rightarrow> (res, p1)
      | (Inl e, p1) \<Rightarrow>
          if contains ''key'' (str e) then (None, p1)
          else (None, logging ERROR (got_exception ''queue_consumer'' queue e) p1))"




subsection \<open>Notions and concrete states for the properties of RedisDB\<close>

definition reconnect_log :: "'s proc \<Rightarrow> (level \<times> string) list" where
  \<comment> \<open>what \<open>dunder_open\<close> logs: nothing, or its own warning when the constructor raises\<close>
  "reconnect_log p =
     (if config_ok p then [] else [(WARNING, ''Redis can'' @ [CHR 0x27] @ ''t be connected.'')])"

definition warned_and_reopened :: "string \<Rightarrow> 's proc \<Rightarrow> 's proc \<Rightarrow> bool" where
  \<comment> \<open>from \<open>p\<close> to \<open>p'\<close>: one warning with the given text, then one call of \<open>dunder_open\<close>\<close>
  "warned_and_reopened m p p' \<longleftrightarrow>
     logs p' = logs p @ (WARNING, m) # reconnect_log p \<and> opens p' = opens p + 1"


definition plain :: "string \<Rightarrow> exn + string" where
  \<comment> \<open>messages that are their own JSON text\<close>
  "plain txt = Inr txt"




definition produced :: "store proc" where
  \<comment> \<open>one message was produced to \<open>q\<close>; nobody has consumed yet\<close>
  "produced = snd (queue_product plain ''q'' ''hello'' (REDIS_CONN fresh_store))"

definition idle_stream :: "store proc" where
  \<comment> \<open>the stream \<open>q\<close> exists and holds no entry\<close>
  "idle_stream =
     REDIS_CONN (fresh_store\<lparr>streams := [''q'' \<mapsto> \<lparr>entries = [], last_id = 0, groups = []\<rparr>]\<rparr>)"

section \<open>Properties of the lock\<close>

lemma REDIS_CONN_eq:
  "REDIS_CONN s =
     \<lparr>config_ok = True, REDIS = True, server = s, logs = [], sent = [], slept = [],
      opens = 1\<rparr>"
  by (simp add: REDIS_CONN_def RedisDB_def dunder_open_def)

lemma call_cases:
  "call c f p =
     (if \<not> REDIS p then (Inl (Exn (''NoneType object has no attribute '' @ fst c)), p)
      else (fst (f (server p)), p\<lparr>server := snd (f (server p)), sent := sent p @ [c]\<rparr>))"
  by (simp add: call_def split: prod.splits)

lemma release_lock_server:
  "server (snd (release_lock l p)) =
     (if lock_acquired l \<and> REDIS p \<and> up (server p)
      then snd (lua_script (lock_key l) (lock_value l) (server p)) else server p)"
  by (simp add: release_lock_def call_cases r_eval_def r_get_def logging_def Let_def
           split: prod.splits sum.splits)

lemma release_lock_sent:
  "sent (snd (release_lock l p)) =
     sent p @
     (if lock_acquired l \<and> REDIS p
      then (''eval'', lock_key l) #
           (if up (server p) \<and> live (server p) (lock_key l) \<noteq> Some (lock_value l)
            then [(''get'', lock_key l)] else [])
      else [])"
  by (auto simp add: release_lock_def call_cases r_eval_def r_get_def logging_def Let_def
                     lua_script_def del_def
           split: prod.splits sum.splits if_splits)

lemma release_lock_flag: "lock_acquired (fst (release_lock l p)) = False"
  by (simp add: release_lock_def Let_def)

lemma lua_script_live:
  "live (snd (lua_script k v s)) k' =
     (if k' = k \<and> live s k = Some v then None else live s k')"
  by (auto simp: lua_script_def del_def live_def split: option.splits)

lemma lua_script_other:
  "live s k \<noteq> Some v \<Longrightarrow> snd (lua_script k v s) = s"
  by (simp add: lua_script_def)

lemma lua_script_up [simp]: "up (snd (lua_script k v s)) = up s"
  by (simp add: lua_script_def del_def)

text \<open>
  Claim C3 (release integrity). Whatever the lock key holds: when the stored value is not
  the caller's token, \<open>release_lock\<close> leaves the store as it is, so a GET that follows
  answers what a GET before would have answered; when the stored value is the caller's
  token and the caller holds the lock (its \<open>_lock_acquired\<close> flag is set, the store
  answers), the record is gone afterwards.
\<close>

theorem release_integrity:
  "(live (server p) (lock_key l) \<noteq> Some (lock_value l) \<longrightarrow>
      server (snd (release_lock l p)) = server p \<and>
      fst (r_get (lock_key l) (server (snd (release_lock l p)))) =
        fst (r_get (lock_key l) (server p)))
   \<and>
   (live (server p) (lock_key l) = Some (lock_value l) \<and>
    lock_acquired l \<and> REDIS p \<and> up (server p) \<longrightarrow>
      fst (r_get (lock_key l) (server (snd (release_lock l p)))) = Inr None)"
  by (simp add: release_lock_server lua_script_other lua_script_live r_get_def)

theorem release_integrity_witness:
  "live (server (held_by ''token-B'')) (lock_key lock_A) \<noteq> Some (lock_value lock_A) \<and>
   fst (r_get ''kb1'' (server (snd (release_lock lock_A (held_by ''token-B''))))) =
     Inr (Some ''token-B'') \<and>
   live (server (held_by ''token-A'')) (lock_key lock_A) = Some (lock_value lock_A) \<and>
   lock_acquired lock_A \<and> REDIS (held_by ''token-A'') \<and> up (server (held_by ''token-A'')) \<and>
   fst (r_get ''kb1'' (server (snd (release_lock lock_A (held_by ''token-A''))))) = Inr None"
  using release_integrity [of "held_by ''token-B''" lock_A]
        release_integrity [of "held_by ''token-A''" lock_A]
  by (simp add: held_by_def REDIS_CONN_eq fresh_store_def lock_A_def RedisDistributedLock_def
                live_def r_get_def)

subsection \<open>The acquisition loop\<close>

lemma attempt_lock_keeps:
  "attempt_lock l p = (r, p') \<Longrightarrow> slept p' = slept p \<and> REDIS p' = REDIS p"
  by (auto simp: attempt_lock_def call_cases r_set_def r_get_def r_ttl_def logging_def
           split: sum.splits if_splits option.splits)

lemma attempt_lock_True:
  "attempt_lock l p = (Inr True, p') \<Longrightarrow>
     live (server p') (lock_key l) = Some (lock_value l) \<and> REDIS p' \<and> up (server p')"
  by (auto simp: attempt_lock_def call_cases r_set_def r_get_def r_ttl_def logging_def live_def
           split: sum.splits if_splits option.splits)


lemma acquire_loop_done:
  "\<not> now (server p) < end_time \<Longrightarrow> acquire_loop others l end_time n p = (Inr False, l, p)"
  by (simp add: acquire_loop.simps)

lemma sleep_simps [simp]:
  "now (server (sleep d f p)) = now (server p) + d"
  "slept (sleep d f p) = slept p @ [(now (server p), d)]"
  "REDIS (sleep d f p) = REDIS p"
  "up (server (sleep d f p)) = up (f (server p))"
  by (simp_all add: sleep_def)

lemma acquire_loop_inv:
  "acquire_loop others l end_time n p = (r, l', p') \<Longrightarrow>
     (\<exists>new. slept p' = slept p @ new \<and>
        (\<forall>(t, d) \<in> set new. now (server p) \<le> t \<and> t < end_time \<and> d = max (1 / 10) ((end_time - t) / 10)))
     \<and> (r = Inr True \<longrightarrow> l' = l\<lparr>lock_acquired := True\<rparr> \<and> now (server p') < end_time \<and>
           live (server p') (lock_key l) = Some (lock_value l) \<and> REDIS p' \<and> up (server p'))
     \<and> (r = Inr False \<longrightarrow> l' = l \<and> end_time \<le> now (server p') \<and>
           (if now (server p) < end_time then now (server p') < end_time + 1 / 10 else p' = p))"
proof (induction others l end_time n p arbitrary: r l' p' rule: acquire_loop.induct)
  case (1 others l end_time attempt p)
  note unf = acquire_loop.simps [of others l end_time attempt p]
  show ?case
  proof (cases "now (server p) < end_time")
    case False
    with "1.prems" show ?thesis by (auto simp: unf)
  next
    case True
    obtain r1 p1 where a: "attempt_lock l p = (r1, p1)" by (cases "attempt_lock l p")
    note k = attempt_lock_keeps [OF a] and n = attempt_lock_now [OF a]
    show ?thesis
    proof (cases r1)
      case (Inl e)
      with "1.prems" True a k show ?thesis by (auto simp: unf)
    next
      case (Inr b)
      show ?thesis
      proof (cases b)
        case True
        with \<open>now (server p) < end_time\<close> "1.prems" a k n Inr attempt_lock_True [of l p p1]
        show ?thesis by (auto simp: unf)
      next
        case False
        let ?d = "max (1 / 10) ((end_time - now (server p)) / 10)"
        let ?p5 = "sleep ?d (others (attempt + 1)) p1"
        have run: "acquire_loop others l end_time (attempt + 1) ?p5 = (r, l', p')"
          using "1.prems" True a Inr False n by (simp add: unf)
        note ih = "1.IH" [OF True a [symmetric] Inr False, unfolded n, OF run]
        from ih obtain new where new: "slept p' = slept ?p5 @ new"
          "\<forall>(t, d) \<in> set new. now (server ?p5) \<le> t \<and> t < end_time \<and> d = max (1 / 10) ((end_time - t) / 10)"
          by blast
        have d: "0 < ?d" by simp
        have s1: "slept p' = slept p @ ((now (server p), ?d) # new)"
          using new(1) k n by simp
        have s2: "\<forall>(t, d) \<in> set ((now (server p), ?d) # new).
                    now (server p) \<le> t \<and> t < end_time \<and> d = max (1 / 10) ((end_time - t) / 10)"
          using new(2) True d n by auto
        have over: "now (server ?p5) < end_time + 1 / 10"
        proof -
          have "now (server ?p5) = now (server p) + ?d" using n by simp
          moreover have "?d < end_time - now (server p) + 1 / 10"
            using True by (auto simp: max_def)
          ultimately show ?thesis by linarith
        qed
        have c: "r = Inr False \<longrightarrow> now (server p') < end_time + 1 / 10"
          using ih over by (auto split: if_splits)
        from s1 s2 have A: "\<exists>new. slept p' = slept p @ new \<and>
        (\<forall>(t, d) \<in> set new. now (server p) \<le> t \<and> t < end_time \<and> d = max (1 / 10) ((end_time - t) / 10))"
          by blast
        show ?thesis using A ih c True by simp
      qed
    qed
  qed
qed


lemma tail_calls:
  "call c (r_get k) p = (r, p') \<Longrightarrow> slept p' = slept p \<and> now (server p') = now (server p)"
  "call c (r_ttl k) p = (r1, p') \<Longrightarrow> slept p' = slept p \<and> now (server p') = now (server p)"
  "call c r_client_list p = (r2, p') \<Longrightarrow> slept p' = slept p \<and> now (server p') = now (server p)"
  by (auto simp: call_cases r_get_def r_ttl_def r_client_list_def split: if_splits option.splits)

lemma tail_calls_ok:
  "REDIS p \<Longrightarrow> up (server p) \<Longrightarrow> \<exists>v p'. call c (r_get k) p = (Inr v, p') \<and> REDIS p' \<and> up (server p')"
  "REDIS p \<Longrightarrow> up (server p) \<Longrightarrow> \<exists>v p'. call c (r_ttl k) p = (Inr v, p') \<and> REDIS p' \<and> up (server p')"
  "REDIS p \<Longrightarrow> up (server p) \<Longrightarrow> \<exists>v p'. call c r_client_list p = (Inr v, p') \<and> REDIS p' \<and> up (server p')"
  by (auto simp: call_cases r_get_def r_ttl_def r_client_list_def split: if_splits option.splits)

lemma acquire_lock_unfold:
  assumes "acquire_lock others l p = (r, l', p')"
  shows "\<exists>r0 p0. acquire_loop others l (now (server p) + acquire_timeout l) 0 p = (r0, l', p0) \<and>
     slept p' = slept p0 \<and> now (server p') = now (server p0) \<and>
     (r = Inr True \<longrightarrow> r0 = Inr True \<and> p' = p0) \<and> (r = Inr False \<longrightarrow> r0 = Inr False)"
proof -
  let ?k = "lock_key l"
  obtain r0 l0 p0 where
    loop: "acquire_loop others l (now (server p) + acquire_timeout l) 0 p = (r0, l0, p0)"
    by (metis prod_cases3)
  obtain x1 p1 where c1: "call (''get'', ?k) (r_get ?k) p0 = (x1, p1)" by (metis surj_pair)
  obtain x2 p2 where c2: "call (''ttl'', ?k) (r_ttl ?k) p1 = (x2, p2)" by (metis surj_pair)
  obtain x3 p3 where c3: "call (''client_list'', []) r_client_list p2 = (x3, p3)"
    by (metis surj_pair)
  note t1 = tail_calls(1) [OF c1] and t2 = tail_calls(2) [OF c2] and t3 = tail_calls(3) [OF c3]
  show ?thesis
  proof (cases r0)
    case (Inl e)
    with assms loop show ?thesis by (simp add: acquire_lock_def Let_def)
  next
    case (Inr b)
    show ?thesis
    proof (cases b)
      case True
      with assms loop Inr show ?thesis by (simp add: acquire_lock_def Let_def)
    next
      case False
      have "l' = l0 \<and> slept p' = slept p0 \<and> now (server p') = now (server p0) \<and> r \<noteq> Inr True"
        using assms loop Inr False c1 c2 c3 t1 t2 t3
        by (cases x1; cases x2; cases x3) (auto simp: acquire_lock_def Let_def logging_def)
      with loop Inr False show ?thesis by simp
    qed
  qed
qed

lemma acquire_lock_True:
  assumes "acquire_lock others l p = (Inr True, l', p')"
  shows "l' = l\<lparr>lock_acquired := True\<rparr> \<and> live (server p') (lock_key l) = Some (lock_value l) \<and>
         REDIS p' \<and> up (server p')"
  using acquire_lock_unfold [OF assms] acquire_loop_inv by blast

lemmas run_simps =
  acquire_lock_def acquire_loop.simps attempt_lock_def call_cases r_set_def r_get_def r_ttl_def
  r_client_list_def logging_def live_def sleep_def Let_def held_by_def REDIS_CONN_eq
  fresh_store_def RedisDistributedLock_def nobody_def





lemma sleep_sent [simp]: "sent (sleep d f q) = sent q"
  by (simp add: sleep_def)












subsection \<open>Who deletes the lock record\<close>

lemma attempt_lock_keeps_live:
  "live (server p) (lock_key l) = Some v \<Longrightarrow>
     live (server (snd (attempt_lock l p))) (lock_key l) = Some v"
  by (auto simp: attempt_lock_def call_cases r_set_def r_get_def r_ttl_def logging_def
           split: sum.splits if_splits option.splits)

lemma clean_lock_live:
  "REDIS p \<Longrightarrow> up (server p) \<Longrightarrow> live (server (snd (clean_lock k p))) k = None"
  by (auto simp: clean_lock_def call_cases r_delete_def del_def live_def
           split: sum.splits prod.splits if_splits option.splits)

text \<open>
  Claim C2, as the code has it. \<open>release_lock\<close> changes the store through one command
  only, the script that deletes the key if its value is the caller's token: if a record
  with value \<open>v\<close> is there before and not after, then \<open>v\<close> is the token of the lock object
  and the object had acquired; it sends an \<^verbatim>\<open>eval\<close>, at most one \<^verbatim>\<open>get\<close> after it, and no
  \<^verbatim>\<open>delete\<close>. An acquisition attempt leaves a live record in place. \<open>clean_lock\<close>, on the
  other hand, deletes the record of the key it is given, whatever its value.
\<close>

theorem release_lock_compare_and_delete:
  "(live (server p) (lock_key l) = Some v \<and>
    live (server (snd (release_lock l p))) (lock_key l) \<noteq> Some v \<longrightarrow>
      v = lock_value l \<and> lock_acquired l)
   \<and> server (snd (release_lock l p)) =
       (if lock_acquired l \<and> REDIS p \<and> up (server p)
        then snd (lua_script (lock_key l) (lock_value l) (server p)) else server p)
   \<and> (\<exists>cs. sent (snd (release_lock l p)) = sent p @ cs \<and>
          (cs = [] \<or> cs = [(''eval'', lock_key l)] \<or>
           cs = [(''eval'', lock_key l), (''get'', lock_key l)]))
   \<and> exit l p = release_lock l p
   \<and> (live (server p) (lock_key l) = Some v \<longrightarrow>
        live (server (snd (attempt_lock l p))) (lock_key l) = Some v)
   \<and> (REDIS p \<and> up (server p) \<longrightarrow> live (server (snd (clean_lock k p))) k = None)"
proof -
  have A: "live (server p) (lock_key l) = Some v \<and>
           live (server (snd (release_lock l p))) (lock_key l) \<noteq> Some v \<longrightarrow>
             v = lock_value l \<and> lock_acquired l"
    by (auto simp: release_lock_server lua_script_live split: if_splits)
  have C: "\<exists>cs. sent (snd (release_lock l p)) = sent p @ cs \<and>
          (cs = [] \<or> cs = [(''eval'', lock_key l)] \<or>
           cs = [(''eval'', lock_key l), (''get'', lock_key l)])"
    by (simp add: release_lock_sent)
  show ?thesis
    using A C release_lock_server [of l p] attempt_lock_keeps_live [of p l v]
          clean_lock_live [of p k]
    by (simp add: exit_def)
qed

theorem release_lock_compare_and_delete_witness:
  "live (server (held_by ''token-A'')) ''kb1'' = Some ''token-A'' \<and>
   live (server (snd (release_lock lock_A (held_by ''token-A'')))) ''kb1'' = None \<and>
   lock_value lock_A = ''token-A'' \<and> lock_acquired lock_A \<and>
   sent (snd (release_lock lock_A (held_by ''token-A''))) = [(''eval'', ''kb1'')] \<and>
   live (server (snd (attempt_lock lock_A (held_by ''token-B'')))) ''kb1'' = Some ''token-B'' \<and>
   REDIS (held_by ''token-B'') \<and> up (server (held_by ''token-B'')) \<and>
   live (server (snd (clean_lock ''kb1'' (held_by ''token-B'')))) ''kb1'' = None"
proof -
  have facts:
    "live (server (held_by ''token-A'')) ''kb1'' = Some ''token-A'' \<and>
     live (server (snd (release_lock lock_A (held_by ''token-A'')))) ''kb1'' = None \<and>
     lock_value lock_A = ''token-A'' \<and> lock_acquired lock_A \<and>
     sent (snd (release_lock lock_A (held_by ''token-A''))) = [(''eval'', ''kb1'')] \<and>
     live (server (snd (attempt_lock lock_A (held_by ''token-B'')))) ''kb1'' = Some ''token-B'' \<and>
     REDIS (held_by ''token-B'') \<and> up (server (held_by ''token-B'')) \<and>
     live (server (snd (clean_lock ''kb1'' (held_by ''token-B'')))) ''kb1'' = None"
    by (simp add: lock_A_def release_lock_sent release_lock_server lua_script_def
                  clean_lock_def r_delete_def del_def run_simps)
  show ?thesis
    using facts
          release_lock_compare_and_delete
            [of "held_by ''token-A''" lock_A "''token-A''" "''kb1''"]
          release_lock_compare_and_delete
            [of "held_by ''token-B''" lock_A "''token-B''" "''kb1''"]
    by blast
qed

text \<open>
  Claim C2 as stated fails for \<open>clean_lock\<close>: called with the key alone, with no token, it
  deletes the record that another holder's token \<open>token-B\<close> is stored in, by a plain
  \<^verbatim>\<open>delete\<close>.
\<close>

theorem clean_lock_deletes_any_record:
  "live (server (held_by ''token-B'')) ''kb1'' = Some ''token-B'' \<and>
   fst (clean_lock ''kb1'' (held_by ''token-B'')) = Inr () \<and>
   live (server (snd (clean_lock ''kb1'' (held_by ''token-B'')))) ''kb1'' = None \<and>
   sent (snd (clean_lock ''kb1'' (held_by ''token-B''))) = [(''delete'', ''kb1'')]"
  by (simp add: clean_lock_def r_delete_def del_def run_simps)

subsection \<open>Releasing twice, releasing what was never acquired\<close>

lemma release_unacquired:
  "\<not> lock_acquired l \<Longrightarrow>
     release_lock l p =
       (l, logging WARNING (''Attempted to release unacquired lock: '' @ lock_key l) p)"
  by (simp add: release_lock_def)

lemma again_unacquired:
  "\<not> lock_acquired l \<Longrightarrow>
     fst (again n (l, p)) = l \<and> server (snd (again n (l, p))) = server p \<and>
     sent (snd (again n (l, p))) = sent p"
proof (induction n)
  case 0
  show ?case by (simp add: again_def)
next
  case (Suc n)
  obtain l' p' where a: "again n (l, p) = (l', p')" by (cases "again n (l, p)")
  with Suc have "l' = l" "server p' = server p" "sent p' = sent p" by simp_all
  with Suc.prems a show ?case
    by (simp add: again_def release_unacquired logging_def)
qed

text \<open>
  Claim C4 (idempotent release). On a lock object that has not acquired, \<open>release_lock\<close>
  writes one warning and does nothing else: no command is sent, the store and the object
  stay as they are. After a successful \<open>acquire_lock\<close>, the first release sends the one
  compare-and-delete command, after which the record is gone and the object no longer
  counts as acquired; any number of further releases send nothing and leave store and
  object unchanged. \<open>release_lock\<close> returns no exception in any case: it has none to return.
\<close>

theorem release_idempotent:
  "(\<not> lock_acquired l \<longrightarrow>
      release_lock l p =
        (l, logging WARNING (''Attempted to release unacquired lock: '' @ lock_key l) p))
   \<and> (acquire_lock others l p = (Inr True, l1, p1) \<longrightarrow>
        live (server p1) (lock_key l1) = Some (lock_value l1) \<and>
        sent (snd (release_lock l1 p1)) = sent p1 @ [(''eval'', lock_key l1)] \<and>
        live (server (snd (release_lock l1 p1))) (lock_key l1) = None \<and>
        \<not> lock_acquired (fst (release_lock l1 p1)) \<and>
        (\<forall>n. fst (again n (release_lock l1 p1)) = fst (release_lock l1 p1) \<and>
             server (snd (again n (release_lock l1 p1))) = server (snd (release_lock l1 p1)) \<and>
             sent (snd (again n (release_lock l1 p1))) = sent (snd (release_lock l1 p1))))"
proof -
  have B: "live (server p1) (lock_key l1) = Some (lock_value l1) \<and>
        sent (snd (release_lock l1 p1)) = sent p1 @ [(''eval'', lock_key l1)] \<and>
        live (server (snd (release_lock l1 p1))) (lock_key l1) = None \<and>
        \<not> lock_acquired (fst (release_lock l1 p1)) \<and>
        (\<forall>n. fst (again n (release_lock l1 p1)) = fst (release_lock l1 p1) \<and>
             server (snd (again n (release_lock l1 p1))) = server (snd (release_lock l1 p1)) \<and>
             sent (snd (again n (release_lock l1 p1))) = sent (snd (release_lock l1 p1)))"
    if acq: "acquire_lock others l p = (Inr True, l1, p1)"
  proof -
    from acquire_lock_True [OF acq] have
      h: "lock_acquired l1" "lock_key l1 = lock_key l" "lock_value l1 = lock_value l"
         "live (server p1) (lock_key l) = Some (lock_value l)" "REDIS p1" "up (server p1)"
      by simp_all
    obtain l2 p2 where r: "release_lock l1 p1 = (l2, p2)" by (cases "release_lock l1 p1")
    have f: "\<not> lock_acquired l2" using release_lock_flag [of l1 p1] r by simp
    have "\<forall>n. fst (again n (l2, p2)) = l2 \<and> server (snd (again n (l2, p2))) = server p2 \<and>
             sent (snd (again n (l2, p2))) = sent p2"
      using again_unacquired [OF f] by blast
    moreover have "sent p2 = sent p1 @ [(''eval'', lock_key l1)]"
      using release_lock_sent [of l1 p1] r h by simp
    moreover have "live (server p2) (lock_key l1) = None"
      using release_lock_server [of l1 p1] r h by (simp add: lua_script_live)
    ultimately show ?thesis using h f r by simp
  qed
  show ?thesis using B release_unacquired [of l p] by blast
qed

theorem release_idempotent_witness:
  "\<not> lock_acquired lock_0 \<and>
   sent (snd (release_lock lock_0 (REDIS_CONN fresh_store))) = [] \<and>
   server (snd (release_lock lock_0 (REDIS_CONN fresh_store))) = fresh_store \<and>
   fst free_run = Inr True \<and>
   sent (snd (release_lock (fst (snd free_run)) (snd (snd free_run)))) =
     [(''set'', ''kb1''), (''eval'', ''kb1'')] \<and>
   live (server (snd (release_lock (fst (snd free_run)) (snd (snd free_run))))) ''kb1'' = None \<and>
   sent (snd (again 2 (release_lock (fst (snd free_run)) (snd (snd free_run))))) =
     [(''set'', ''kb1''), (''eval'', ''kb1'')]"
proof -
  have run: "free_run =
    (Inr True, lock_0\<lparr>lock_acquired := True\<rparr>,
     (logging DEBUG ''Lock acquired for kb1'' (REDIS_CONN fresh_store))
       \<lparr>server := fresh_store\<lparr>strs := [''kb1'' \<mapsto> (''token-A'', 1800)]\<rparr>,
         sent := [(''set'', ''kb1'')]\<rparr>)"
    by (simp add: free_run_def lock_0_def run_simps)
  have acq: "acquire_lock nobody lock_0 (REDIS_CONN fresh_store) =
               (Inr True, fst (snd free_run), snd (snd free_run))"
    unfolding free_run_def [symmetric] by (simp add: run)
  have k: "lock_key (fst (snd free_run)) = ''kb1''"
    by (simp add: run lock_0_def RedisDistributedLock_def)
  have s: "sent (snd (snd free_run)) = [(''set'', ''kb1'')]"
    by (simp add: run)
  have u: "\<not> lock_acquired lock_0"
    by (simp add: lock_0_def RedisDistributedLock_def)
  have t: "fst free_run = Inr True"
    by (simp add: run)
  note T = release_idempotent [of lock_0 "REDIS_CONN fresh_store" nobody
             "fst (snd free_run)" "snd (snd free_run)"]
  let ?r = "release_lock (fst (snd free_run)) (snd (snd free_run))"
  from T u have r0:
    "release_lock lock_0 (REDIS_CONN fresh_store) =
       (lock_0, logging WARNING (''Attempted to release unacquired lock: '' @ lock_key lock_0)
                  (REDIS_CONN fresh_store))"
    by blast
  from T acq have r1: "sent (snd ?r) = sent (snd (snd free_run)) @ [(''eval'', lock_key (fst (snd free_run)))]"
    and r2: "live (server (snd ?r)) (lock_key (fst (snd free_run))) = None"
    and r3: "sent (snd (again 2 ?r)) = sent (snd ?r)"
    by blast+
  have n1: "sent (snd (release_lock lock_0 (REDIS_CONN fresh_store))) = []"
    unfolding r0 by (simp add: logging_def REDIS_CONN_eq)
  have n2: "server (snd (release_lock lock_0 (REDIS_CONN fresh_store))) = fresh_store"
    unfolding r0 by (simp add: logging_def REDIS_CONN_eq)
  show ?thesis
    using u t n1 n2 r1 r2 r3 k s by simp
qed

section \<open>Properties of the pipelines\<close>

lemma with_lock_cases:
  assumes "with_lock others l body w = (r, w')"
  shows "(\<exists>e l1 p1. enter others l (proc w) = (Inl e, l1, p1) \<and> r = Inl e \<and> w' = w\<lparr>proc := p1\<rparr>) \<or>
         (\<exists>b l1 p1 w2. enter others l (proc w) = (Inr b, l1, p1) \<and>
             body (w\<lparr>proc := p1\<rparr>) = (r, w2) \<and> w' = w2\<lparr>proc := snd (exit l1 (proc w2))\<rparr>)"
proof -
  obtain x l1 p1 where en: "enter others l (proc w) = (x, l1, p1)" by (metis prod_cases3)
  show ?thesis
  proof (cases x)
    case (Inl e)
    with assms en show ?thesis by (simp add: with_lock_def)
  next
    case (Inr b)
    obtain r2 w2 where bd: "body (w\<lparr>proc := p1\<rparr>) = (r2, w2)" by (metis surj_pair)
    with assms en Inr show ?thesis by (auto simp: with_lock_def split: prod.splits)
  qed
qed

lemma get_graph_simps [simp]:
  "graph_store (snd (get_graph t k w)) = graph_store w"
  "index (snd (get_graph t k w)) = index w"
  "progress (snd (get_graph t k w)) = progress w"
  "proc (snd (get_graph t k w)) = proc w"
  "trace (snd (get_graph t k w)) = trace w @ [''get_graph'']"
  "fst (get_graph t k w) =
     (case graph_store w (t, k) of None \<Rightarrow> (None, None) | Some (g, ids) \<Rightarrow> (Some g, ids))"
  by (simp_all add: get_graph_def traced_def split: option.splits prod.splits)

lemma Dealer_locked_docids:
  assumes "Dealer_locked C t k graph docids w = (Inr g, w')"
  shows "\<exists>ids. graph_store w' (t, k) = Some (g, Some ids) \<and>
           ids = (case graph_store w (t, k) of
                    Some (og, Some old) \<Rightarrow> if old \<noteq> [] then list_set (docids @ old) else docids
                  | _ \<Rightarrow> docids)"
  using assms
  by (cases "get_graph t k w")
     (auto simp: Dealer_locked_def get_graph_def set_graph_def traced_def Let_def
           split: option.splits prod.splits sum.splits if_splits)

lemma with_lock_entered:
  assumes "enter others l (proc w) = (Inr b, l1, p1)" and "body (w\<lparr>proc := p1\<rparr>) = (r, w2)"
  shows "with_lock others l body w = (r, w2\<lparr>proc := snd (exit l1 (proc w2))\<rparr>)"
  using assms by (simp add: with_lock_def split: prod.splits)

lemma Dealer_locked_returns:
  assumes "\<forall>a b. \<exists>c. graph_merge C a b = Inr c"
      and "\<forall>a. \<exists>c. update_nodes_pagerank_nhop_neighbour C a = Inr c"
  shows "\<exists>g w2. Dealer_locked C t k graph docids w = (Inr g, w2)"
proof -
  obtain og ids w1 where gg: "get_graph t k w = ((og, ids), w1)" by (metis surj_pair)
  have "\<exists>g2 w2. (case og of None \<Rightarrow> (Inr graph, w1)
      | Some o1 \<Rightarrow> (graph_merge C o1 graph, traced ''graph_merge'' w1)) = (Inr g2, w2)"
  proof (cases og)
    case None
    then show ?thesis by simp
  next
    case (Some a)
    from assms(1) obtain c where "graph_merge C a graph = Inr c" by blast
    with Some show ?thesis by simp
  qed
  then obtain g2 w2 where m:
    "(case og of None \<Rightarrow> (Inr graph, w1)
      | Some o1 \<Rightarrow> (graph_merge C o1 graph, traced ''graph_merge'' w1)) = (Inr g2, w2)"
    by blast
  from assms(2) obtain g3 where u: "update_nodes_pagerank_nhop_neighbour C g2 = Inr g3" by blast
  show ?thesis
    unfolding Dealer_locked_def gg using m u by (simp add: Let_def)
qed

lemma Dealer_returns:
  assumes "extractor C chunks = Inr er"
      and "\<forall>a b. \<exists>c. graph_merge C a b = Inr c"
      and "\<forall>a. \<exists>c. update_nodes_pagerank_nhop_neighbour C a = Inr c"
      and "enter others (RedisDistributedLock token kb_id (60 * 30) 10) (proc w) = (Inr b, l1, p1)"
  shows "\<exists>g w'. Dealer C others token tenant_id kb_id chunks w = (Inr g, w')"
proof -
  obtain ents rels where er: "er = (ents, rels)" by (cases er)
  let ?w0 = "traced ''extractor'' w"
  have en: "enter others (RedisDistributedLock token kb_id (60 * 30) 10) (proc ?w0) = (Inr b, l1, p1)"
    using assms(4) by (simp add: traced_def)
  let ?body = "Dealer_locked C tenant_id kb_id (build_graph ents rels) (list_set (map fst chunks))"
  from Dealer_locked_returns [OF assms(2,3)] obtain g w2 where
    "?body (?w0\<lparr>proc := p1\<rparr>) = (Inr g, w2)"
    by blast
  from with_lock_entered [where body = ?body, OF en this] assms(1) er show ?thesis
    by (simp add: Dealer_def Let_def)
qed

text \<open>
  Claim C9 (document ids). Whenever \<open>Dealer\<close> completes, the document ids it has persisted
  for the knowledge base are a duplicate-free list whose elements are exactly the
  document ids of the new chunks together with the ids persisted before (none when nothing
  was persisted). And it does complete when the collaborators return and entering the lock
  does not raise.
\<close>

theorem Dealer_docids_union:
  "(Dealer C others token tenant_id kb_id chunks w = (Inr g, w') \<longrightarrow>
      (\<exists>ids. graph_store w' (tenant_id, kb_id) = Some (g, Some ids) \<and> distinct ids \<and>
           set ids = fst ` set chunks \<union>
             (case graph_store w (tenant_id, kb_id) of
                Some (og, Some old) \<Rightarrow> set old | _ \<Rightarrow> {})))
   \<and> ((\<exists>er. extractor C chunks = Inr er) \<and>
       (\<forall>a b. \<exists>c. graph_merge C a b = Inr c) \<and>
       (\<forall>a. \<exists>c. update_nodes_pagerank_nhop_neighbour C a = Inr c) \<and>
       (\<exists>b l1 p1. enter others (RedisDistributedLock token kb_id (60 * 30) 10) (proc w) =
                     (Inr b, l1, p1)) \<longrightarrow>
       (\<exists>g w'. Dealer C others token tenant_id kb_id chunks w = (Inr g, w')))"
proof -
  have A: "\<exists>ids. graph_store w' (tenant_id, kb_id) = Some (g, Some ids) \<and> distinct ids \<and>
           set ids = fst ` set chunks \<union>
             (case graph_store w (tenant_id, kb_id) of
                Some (og, Some old) \<Rightarrow> set old | _ \<Rightarrow> {})"
    if assms: "Dealer C others token tenant_id kb_id chunks w = (Inr g, w')"
  proof -
  let ?docids = "list_set (map fst chunks)"
  from assms obtain ents rels where
    ex: "extractor C chunks = Inr (ents, rels)" and
    wl: "with_lock others (RedisDistributedLock token kb_id (60 * 30) 10)
           (Dealer_locked C tenant_id kb_id (build_graph ents rels) ?docids)
           (traced ''extractor'' w) = (Inr g, w')"
    by (auto simp: Dealer_def Let_def split: sum.splits prod.splits)
  from with_lock_cases [OF wl] obtain p1 w2 p2 where
    body: "Dealer_locked C tenant_id kb_id (build_graph ents rels) ?docids
             ((traced ''extractor'' w)\<lparr>proc := p1\<rparr>) = (Inr g, w2)" and
    w': "w' = w2\<lparr>proc := p2\<rparr>"
    by auto
  from Dealer_locked_docids [OF body] obtain ids where
    ids: "graph_store w2 (tenant_id, kb_id) = Some (g, Some ids)"
         "ids = (case graph_store w (tenant_id, kb_id) of
                    Some (og, Some old) \<Rightarrow> if old \<noteq> [] then list_set (?docids @ old) else ?docids
                  | _ \<Rightarrow> ?docids)"
    by (auto simp: traced_def)
  have "distinct ids"
    using ids(2) by (auto simp: list_set_def split: option.splits)
  moreover have "set ids = fst ` set chunks \<union>
             (case graph_store w (tenant_id, kb_id) of
                Some (og, Some old) \<Rightarrow> set old | _ \<Rightarrow> {})"
    using ids(2) by (auto simp: list_set_def split: option.splits)
  ultimately show ?thesis using ids(1) w' by simp
qed
  have B: "\<exists>g w'. Dealer C others token tenant_id kb_id chunks w = (Inr g, w')"
    if h: "(\<exists>er. extractor C chunks = Inr er) \<and>
       (\<forall>a b. \<exists>c. graph_merge C a b = Inr c) \<and>
       (\<forall>a. \<exists>c. update_nodes_pagerank_nhop_neighbour C a = Inr c) \<and>
       (\<exists>b l1 p1. enter others (RedisDistributedLock token kb_id (60 * 30) 10) (proc w) =
                     (Inr b, l1, p1))"
  proof -
    from h obtain er where 1: "extractor C chunks = Inr er" by (elim conjE exE)
    from h obtain b l1 p1 where
      2: "enter others (RedisDistributedLock token kb_id (60 * 30) 10) (proc w) = (Inr b, l1, p1)"
      by (elim conjE exE)
    from h have 3: "\<forall>a b. \<exists>c. graph_merge C a b = Inr c" by (elim conjE)
    from h have 4: "\<forall>a. \<exists>c. update_nodes_pagerank_nhop_neighbour C a = Inr c"
      by (elim conjE)
    from Dealer_returns [OF 1 3 4 2] show ?thesis .
  qed
  show ?thesis
  proof (intro conjI impI)
    assume "Dealer C others token tenant_id kb_id chunks w = (Inr g, w')"
    then show "\<exists>ids. graph_store w' (tenant_id, kb_id) = Some (g, Some ids) \<and> distinct ids \<and>
           set ids = fst ` set chunks \<union>
             (case graph_store w (tenant_id, kb_id) of
                Some (og, Some old) \<Rightarrow> set old | _ \<Rightarrow> {})"
      by (rule A)
  next
    assume "(\<exists>er. extractor C chunks = Inr er) \<and>
       (\<forall>a b. \<exists>c. graph_merge C a b = Inr c) \<and>
       (\<forall>a. \<exists>c. update_nodes_pagerank_nhop_neighbour C a = Inr c) \<and>
       (\<exists>b l1 p1. enter others (RedisDistributedLock token kb_id (60 * 30) 10) (proc w) =
                     (Inr b, l1, p1))"
    then show "\<exists>g w'. Dealer C others token tenant_id kb_id chunks w = (Inr g, w')"
      by (rule B)
  qed
qed

lemma enter_free:
  "enter nobody (RedisDistributedLock ''token-A'' ''kb1'' (60 * 30) 10) (REDIS_CONN fresh_store) =
     (Inr True, lock_0\<lparr>lock_acquired := True\<rparr>,
      (logging DEBUG ''Lock acquired for kb1'' (REDIS_CONN fresh_store))
        \<lparr>server := fresh_store\<lparr>strs := [''kb1'' \<mapsto> (''token-A'', 1800)]\<rparr>,
          sent := [(''set'', ''kb1'')]\<rparr>)"
  by (simp add: enter_def lock_0_def run_simps)

theorem Dealer_docids_union_witness:
  "\<exists>g w' ids.
     Dealer toy nobody ''token-A'' ''t1'' ''kb1'' two_docs world_known = (Inr g, w') \<and>
     graph_store w' (''t1'', ''kb1'') = Some (g, Some ids) \<and> distinct ids \<and>
     set ids = {''d1'', ''d2'', ''d3''}"
proof -
  note T = Dealer_docids_union [of toy nobody "''token-A''" "''t1''" "''kb1''" two_docs world_known]
  have e: "\<exists>b l1 p1. enter nobody (RedisDistributedLock ''token-A'' ''kb1'' (60 * 30) 10)
                        (proc world_known) = (Inr b, l1, p1)"
    using enter_free by (auto simp: world_known_def world_of_def)
  have c: "(\<exists>er. extractor toy two_docs = Inr er) \<and>
           (\<forall>a b. \<exists>c. graph_merge toy a b = Inr c) \<and>
           (\<forall>a. \<exists>c. update_nodes_pagerank_nhop_neighbour toy a = Inr c)"
    by (simp add: toy_def)
  from T c e obtain g w' where
    run: "Dealer toy nobody ''token-A'' ''t1'' ''kb1'' two_docs world_known = (Inr g, w')"
    by blast
  from T [of g w'] run obtain ids where
    ids: "graph_store w' (''t1'', ''kb1'') = Some (g, Some ids)" "distinct ids"
      "set ids = fst ` set two_docs \<union>
         (case graph_store world_known (''t1'', ''kb1'') of
            Some (og, Some old) \<Rightarrow> set old | _ \<Rightarrow> {})"
    by blast
  have "set ids = {''d1'', ''d2'', ''d3''}"
    unfolding ids(3) by (auto simp: two_docs_def world_known_def world_of_def)
  with run ids(1,2) show ?thesis by blast
qed

subsection \<open>A missing graph\<close>

lemma WithResolution_locked_missing:
  assumes "falsy (map_option fst (graph_store w (t, k)))"
  shows "WithResolution_locked C t k cb w =
           (Inr Return, callback cb (Some (- 1)) ''Faild to fetch the graph.''
                          (wlog ERROR ''Faild to fetch the graph.'' (traced ''get_graph'' w)))"
  using assms
  by (auto simp: WithResolution_locked_def get_graph_def split: option.splits prod.splits)

lemma WithCommunity_locked_missing:
  assumes "falsy (map_option fst (graph_store w (t, k)))"
  shows "WithCommunity_locked C t k cb w =
           (Inr Return, callback cb (Some (- 1)) ''Faild to fetch the graph.''
                          (wlog ERROR ''Faild to fetch the graph.'' (traced ''get_graph'' w)))"
  using assms
  by (auto simp: WithCommunity_locked_def get_graph_def split: option.splits prod.splits)

lemma abort_shape:
  assumes wl: "with_lock others l body w = (r, w')"
      and body: "\<And>p. body (w\<lparr>proc := p\<rparr>) =
                   (Inr Return, callback cb (Some (- 1)) ''Faild to fetch the graph.''
                      (wlog ERROR ''Faild to fetch the graph.'' (traced ''get_graph'' (w\<lparr>proc := p\<rparr>))))"
  shows "graph_store w' = graph_store w \<and> index w' = index w \<and>
         (trace w' = trace w \<or> trace w' = trace w @ [''get_graph'']) \<and>
         (r = Inr Return \<or> (\<exists>e. r = Inl e)) \<and>
         ((\<exists>b l1 p1. enter others l (proc w) = (Inr b, l1, p1)) \<longrightarrow>
            r = Inr Return \<and> trace w' = trace w @ [''get_graph''] \<and>
            progress w' =
              progress w @ (if cb then [(Some (- 1), ''Faild to fetch the graph.'')] else []))"
  using with_lock_cases [OF wl]
  by (auto simp: body callback_def wlog_def traced_def)

text \<open>
  Claim C10 (missing graph). When nothing is persisted for the knowledge base, or the
  persisted graph has no nodes, \<open>WithResolution\<close> and \<open>WithCommunity\<close> change neither the
  persisted graphs nor the document index and call no collaborator: the only function
  they may have called is \<open>get_graph\<close>. When entering the lock does not raise, they return
  normally after that one call, and the progress callback, if one was passed, has received
  exactly one call, with status \<open>-1\<close> and the fetch-failure message.
\<close>

theorem missing_graph_aborts:
  assumes "falsy (map_option fst (graph_store w (tenant_id, kb_id)))"
  shows "\<forall>run \<in> {WithResolution C others token tenant_id kb_id cb w,
                WithCommunity C others token tenant_id kb_id cb w}.
           graph_store (snd run) = graph_store w \<and> index (snd run) = index w \<and>
           (trace (snd run) = trace w \<or> trace (snd run) = trace w @ [''get_graph'']) \<and>
           ((\<exists>b l1 p1. enter others (RedisDistributedLock token kb_id (60 * 30) 10) (proc w) =
                          (Inr b, l1, p1)) \<longrightarrow>
              fst run = Inr () \<and> trace (snd run) = trace w @ [''get_graph''] \<and>
              progress (snd run) =
                progress w @ (if cb then [(Some (- 1), ''Faild to fetch the graph.'')] else []))"
proof -
  let ?l = "RedisDistributedLock token kb_id (60 * 30) 10"
  have f: "falsy (map_option fst (graph_store (w\<lparr>proc := p\<rparr>) (tenant_id, kb_id)))" for p
    using assms by simp
  obtain r1 w1 where
    a1: "with_lock others ?l (WithResolution_locked C tenant_id kb_id cb) w = (r1, w1)"
    by (metis surj_pair)
  obtain r2 w2 where
    a2: "with_lock others ?l (WithCommunity_locked C tenant_id kb_id cb) w = (r2, w2)"
    by (metis surj_pair)
  note s1 = abort_shape [OF a1, of cb, OF WithResolution_locked_missing [OF f]]
  note s2 = abort_shape [OF a2, of cb, OF WithCommunity_locked_missing [OF f]]
  have R: "WithResolution C others token tenant_id kb_id cb w =
             ((case r1 of Inl e \<Rightarrow> Inl e | Inr x \<Rightarrow> Inr ()), w1)"
    using s1 a1 by (auto simp: WithResolution_def)
  have M: "WithCommunity C others token tenant_id kb_id cb w =
             ((case r2 of Inl e \<Rightarrow> Inl e | Inr x \<Rightarrow> Inr ()), w2)"
    using s2 a2 by (auto simp: WithCommunity_def)
  have P1: "graph_store w1 = graph_store w \<and> index w1 = index w \<and>
           (trace w1 = trace w \<or> trace w1 = trace w @ [''get_graph'']) \<and>
           ((\<exists>b l1 p1. enter others ?l (proc w) = (Inr b, l1, p1)) \<longrightarrow>
              (case r1 of Inl e \<Rightarrow> Inl e | Inr x \<Rightarrow> Inr ()) = Inr () \<and>
              trace w1 = trace w @ [''get_graph''] \<and>
              progress w1 =
                progress w @ (if cb then [(Some (- 1), ''Faild to fetch the graph.'')] else []))"
    using s1 by (cases r1) simp_all
  have P2: "graph_store w2 = graph_store w \<and> index w2 = index w \<and>
           (trace w2 = trace w \<or> trace w2 = trace w @ [''get_graph'']) \<and>
           ((\<exists>b l1 p1. enter others ?l (proc w) = (Inr b, l1, p1)) \<longrightarrow>
              (case r2 of Inl e \<Rightarrow> Inl e | Inr x \<Rightarrow> Inr ()) = Inr () \<and>
              trace w2 = trace w @ [''get_graph''] \<and>
              progress w2 =
                progress w @ (if cb then [(Some (- 1), ''Faild to fetch the graph.'')] else []))"
    using s2 by (cases r2) simp_all
  show ?thesis
    unfolding R M using P1 P2 by simp
qed

theorem missing_graph_aborts_witness:
  "falsy (map_option fst (graph_store world_new (''t1'', ''kb1''))) \<and>
   falsy (map_option fst (graph_store world_empty (''t1'', ''kb1''))) \<and>
   fst (WithResolution toy nobody ''token-A'' ''t1'' ''kb1'' True world_new) = Inr () \<and>
   progress (snd (WithResolution toy nobody ''token-A'' ''t1'' ''kb1'' True world_new)) =
     [(Some (- 1), ''Faild to fetch the graph.'')] \<and>
   trace (snd (WithResolution toy nobody ''token-A'' ''t1'' ''kb1'' True world_new)) =
     [''get_graph''] \<and>
   index (snd (WithResolution toy nobody ''token-A'' ''t1'' ''kb1'' True world_new)) = [] \<and>
   fst (WithCommunity toy nobody ''token-A'' ''t1'' ''kb1'' True world_empty) = Inr () \<and>
   progress (snd (WithCommunity toy nobody ''token-A'' ''t1'' ''kb1'' True world_empty)) =
     [(Some (- 1), ''Faild to fetch the graph.'')] \<and>
   graph_store (snd (WithCommunity toy nobody ''token-A'' ''t1'' ''kb1'' True world_empty)) =
     graph_store world_empty"
proof -
  have f1: "falsy (map_option fst (graph_store world_new (''t1'', ''kb1'')))"
    by (simp add: world_new_def world_of_def falsy_def)
  have f2: "falsy (map_option fst (graph_store world_empty (''t1'', ''kb1'')))"
    by (simp add: world_empty_def world_of_def falsy_def Graph_def number_of_nodes_def)
  have e1: "\<exists>b l1 p1. enter nobody (RedisDistributedLock ''token-A'' ''kb1'' (60 * 30) 10)
                        (proc world_new) = (Inr b, l1, p1)"
    using enter_free by (auto simp: world_new_def world_of_def)
  have e2: "\<exists>b l1 p1. enter nobody (RedisDistributedLock ''token-A'' ''kb1'' (60 * 30) 10)
                        (proc world_empty) = (Inr b, l1, p1)"
    using enter_free by (auto simp: world_empty_def world_of_def)
  have i: "index world_new = []" "trace world_new = []" "progress world_new = []"
          "progress world_empty = []"
    by (simp_all add: world_new_def world_empty_def world_of_def)
  let ?R = "WithResolution toy nobody ''token-A'' ''t1'' ''kb1'' True world_new"
  let ?M = "WithCommunity toy nobody ''token-A'' ''t1'' ''kb1'' True world_empty"
  from missing_graph_aborts [OF f1, of toy nobody "''token-A''" True] e1
  have r: "fst ?R = Inr ()" "trace (snd ?R) = trace world_new @ [''get_graph'']"
    "progress (snd ?R) = progress world_new @ [(Some (- 1), ''Faild to fetch the graph.'')]"
    "index (snd ?R) = index world_new"
    by simp_all
  from missing_graph_aborts [OF f2, of toy nobody "''token-A''" True] e2
  have m: "fst ?M = Inr ()" "graph_store (snd ?M) = graph_store world_empty"
    "progress (snd ?M) = progress world_empty @ [(Some (- 1), ''Faild to fetch the graph.'')]"
    by simp_all
  show ?thesis using f1 f2 r m i by simp
qed

subsection \<open>Entering the critical section without the lock\<close>

lemma contended_attempt:
  assumes "REDIS p" "up (server p)" "0 < ttl l" "live (server p) (lock_key l) = Some v"
  shows "\<exists>p'. attempt_lock l p = (Inr False, p') \<and> REDIS p' \<and> server p' = server p"
  using assms
  by (simp add: attempt_lock_def call_cases r_set_def r_get_def r_ttl_def logging_def
           split: option.splits)

lemma contended_loop:
  assumes "REDIS p" "up (server p)" "0 < ttl l"
      and "strs (server p) (lock_key l) = Some (v, e)" "end_time \<le> e"
  shows "\<exists>p'. acquire_loop nobody l end_time n p = (Inr False, l, p') \<and> REDIS p' \<and>
           up (server p') \<and> strs (server p') = strs (server p)"
  using assms
proof (induction nobody l end_time n p rule: acquire_loop.induct)
  case (1 l end_time attempt p)
  note unf = acquire_loop.simps [of nobody l end_time attempt p]
  show ?case
  proof (cases "now (server p) < end_time")
    case False
    with "1.prems" show ?thesis by (simp add: unf)
  next
    case True
    have "live (server p) (lock_key l) = Some v"
      using "1.prems"(4,5) True by (simp add: live_def)
    from contended_attempt [OF "1.prems"(1,2,3) this] obtain p1 where
      a: "attempt_lock l p = (Inr False, p1)" "REDIS p1" "server p1 = server p"
      by blast
    let ?p5 = "sleep (max (1 / 10) ((end_time - now (server p1)) / 10)) (nobody (attempt + 1)) p1"
    have s: "REDIS ?p5" "up (server ?p5)" "strs (server ?p5) = strs (server p)"
      using a "1.prems" by (simp_all add: sleep_def nobody_def)
    from "1.hyps" [OF True a(1) [symmetric] refl _ s(1,2) "1.prems"(3) _ "1.prems"(5)]
         s(3) "1.prems"(4)
    obtain p' where "acquire_loop nobody l end_time (attempt + 1) ?p5 = (Inr False, l, p')"
      "REDIS p'" "up (server p')" "strs (server p') = strs (server p)"
      by auto
    with True a show ?thesis by (simp add: unf)
  qed
qed

lemma contended_lock:
  assumes "REDIS p" "up (server p)" "0 < ttl l" "0 \<le> acquire_timeout l"
      and "strs (server p) (lock_key l) = Some (v, e)" "now (server p) + acquire_timeout l \<le> e"
  shows "\<exists>p'. enter nobody l p = (Inr False, l, p') \<and> strs (server p') = strs (server p) \<and>
           now (server p') < now (server p) + acquire_timeout l + 1 / 10"
proof -
  let ?e = "now (server p) + acquire_timeout l"
  let ?k = "lock_key l"
  from contended_loop [OF assms(1,2,3,5,6), of 0] obtain p0 where
    loop: "acquire_loop nobody l ?e 0 p = (Inr False, l, p0)" and
    p0: "REDIS p0" "up (server p0)" "strs (server p0) = strs (server p)"
    by blast
  from acquire_loop_inv [OF loop] assms(4) have t: "now (server p0) < ?e + 1 / 10"
    by (auto split: if_splits)
  from tail_calls_ok(1) [OF p0(1,2)] obtain v1 p1 where
    c1: "call (''get'', ?k) (r_get ?k) p0 = (Inr v1, p1)" "REDIS p1" "up (server p1)"
    by blast
  from tail_calls_ok(2) [OF c1(2,3)] obtain v2 p2 where
    c2: "call (''ttl'', ?k) (r_ttl ?k) p1 = (Inr v2, p2)" "REDIS p2" "up (server p2)"
    by blast
  from tail_calls_ok(3) [OF c2(2,3)] obtain v3 p3 where
    c3: "call (''client_list'', []) r_client_list p2 = (Inr v3, p3)"
    by blast
  have s: "server p1 = server p0" "server p2 = server p1" "server p3 = server p2"
    using c1(1) c2(1) c3
    by (auto simp: call_cases r_get_def r_ttl_def r_client_list_def split: if_splits option.splits)
  have "enter nobody l p = (Inr False, l, logging ERROR (''Failed to acquire lock '' @ ?k) p3)"
    using loop c1(1) c2(1) c3 by (simp add: enter_def acquire_lock_def Let_def)
  with s p0 t show ?thesis by simp
qed

text \<open>
  Claim C1 fails on the code. \<open>__enter__\<close> returns None when \<open>acquire_lock\<close> timed out,
  and a with-statement runs its body whatever \<open>__enter__\<close> returns. Here another worker
  holds the lock of \<open>kb1\<close> for the whole acquisition window: entering gives False, and
  \<open>Dealer\<close> still loads, recomputes and persists the graph and the document ids, while
  the lock record still carries the other worker's token.
\<close>

theorem Dealer_persists_without_lock:
  "fst (enter nobody (RedisDistributedLock ''token-A'' ''kb1'' (60 * 30) 10) (proc world_held)) =
     Inr False \<and>
   graph_store world_held (''t1'', ''kb1'') = None \<and>
   fst unlocked_run = Inr graph_AB \<and>
   graph_store (snd unlocked_run) (''t1'', ''kb1'') = Some (graph_AB, Some [''d2'', ''d1'']) \<and>
   trace (snd unlocked_run) =
     [''extractor'', ''get_graph'', ''update_nodes_pagerank_nhop_neighbour'', ''set_graph''] \<and>
   live (server (proc (snd unlocked_run))) ''kb1'' = Some ''token-B''"
proof -
  let ?l = "RedisDistributedLock ''token-A'' ''kb1'' (60 * 30) 10"
  let ?p = "held_by ''token-B''"
  have pre: "REDIS ?p" "up (server ?p)" "0 < ttl ?l" "0 \<le> acquire_timeout ?l"
    "strs (server ?p) (lock_key ?l) = Some (''token-B'', 1800)"
    "now (server ?p) + acquire_timeout ?l \<le> 1800"
    by (simp_all add: held_by_def REDIS_CONN_eq fresh_store_def RedisDistributedLock_def)
  from contended_lock [OF pre] obtain p1 where
    en: "enter nobody ?l ?p = (Inr False, ?l, p1)" and
    p1: "strs (server p1) = strs (server ?p)" "now (server p1) < now (server ?p) + acquire_timeout ?l + 1 / 10"
    by blast
  have pw: "proc world_held = ?p" "proc (traced ''extractor'' world_held) = ?p"
    by (simp_all add: world_held_def world_of_def traced_def)
  have ex: "extractor toy two_docs =
              Inr ([\<lparr>entity_name = ''A'', entity_type = ''person''\<rparr>,
                    \<lparr>entity_name = ''B'', entity_type = ''org''\<rparr>],
                   [\<lparr>src_id = ''A'', tgt_id = ''B'', weight = 1\<rparr>])"
    by (simp add: toy_def)
  have bg: "build_graph [\<lparr>entity_name = ''A'', entity_type = ''person''\<rparr>,
                         \<lparr>entity_name = ''B'', entity_type = ''org''\<rparr>]
                        [\<lparr>src_id = ''A'', tgt_id = ''B'', weight = 1\<rparr>] = graph_AB"
    by (simp add: build_graph_def add_node_def add_edge_def Graph_def graph_AB_def Let_def)
  have ls: "list_set (map fst two_docs) = [''d2'', ''d1'']"
    by (simp add: list_set_def two_docs_def)
  let ?w0 = "(traced ''extractor'' world_held)\<lparr>proc := p1\<rparr>"
  let ?w2 = "set_graph ''t1'' ''kb1'' graph_AB (Some [''d2'', ''d1''])
               (traced ''update_nodes_pagerank_nhop_neighbour'' (traced ''get_graph'' ?w0))"
  have body: "Dealer_locked toy ''t1'' ''kb1'' graph_AB [''d2'', ''d1''] ?w0 = (Inr graph_AB, ?w2)"
    by (simp add: Dealer_locked_def get_graph_def traced_def world_held_def world_of_def toy_def
                  Let_def)
  have en': "enter nobody ?l (proc (traced ''extractor'' world_held)) = (Inr False, ?l, p1)"
    using en pw by simp
  have run: "unlocked_run = (Inr graph_AB, ?w2\<lparr>proc := snd (exit ?l (proc ?w2))\<rparr>)"
    unfolding unlocked_run_def Dealer_def ex ls Let_def
    using with_lock_entered [where body = "Dealer_locked toy ''t1'' ''kb1'' graph_AB [''d2'', ''d1'']",
            OF en' body]
    by (simp add: bg)
  have ps: "proc ?w2 = p1"
    by (simp add: set_graph_def traced_def)
  have rel: "server (snd (exit ?l p1)) = server p1"
    by (simp add: exit_def release_lock_def RedisDistributedLock_def logging_def)
  have lv: "live (server p1) ''kb1'' = Some ''token-B''"
    using p1 pre(5) by (simp add: live_def held_by_def REDIS_CONN_eq fresh_store_def
                                  RedisDistributedLock_def)
  show ?thesis
    using en pw lv rel
    by (simp add: run ps set_graph_def traced_def world_held_def world_of_def)
qed

section \<open>Properties of RedisDB\<close>

subsection \<open>When the underlying call raises\<close>


lemma handled':
  "warned_and_reopened m p (dunder_open (logging WARNING m p))"
  by (simp add: warned_and_reopened_def dunder_open_def logging_def reconnect_log_def Let_def)






















subsection \<open>Recovering an unacknowledged message\<close>

lemma filter_none: "(\<forall>x \<in> set xs. \<not> P x) \<Longrightarrow> filter P xs = []"
  by (induction xs) auto

lemma in_keys: "(g \<in> fst ` set al) = (map_of al g \<noteq> None)"
  by (simp add: map_of_eq_None_iff)





subsection \<open>The first consume on a stream\<close>

lemma consume_existing:
  assumes p: "REDIS p" "up (server p)"
      and st: "streams (server p) q = Some st" "map_of (groups st) g = None"
      and pos: "\<forall>(j, f) \<in> set (entries st). 0 < j"
  shows "\<exists>st'. streams (server (snd (queue_consumer loads q g c None p))) q = Some st' \<and>
           entries st' = entries st \<and>
           sent (snd (queue_consumer loads q g c None p)) =
             sent p @ [(''xinfo_groups'', q), (''xgroup_create'', q), (''xreadgroup'', q)] \<and>
           (entries st = [] \<longrightarrow>
              fst (queue_consumer loads q g c None p) = None \<and>
              map_of (groups st') g = Some \<lparr>last_delivered = 0, pending = []\<rparr> \<and>
              now (server (snd (queue_consumer loads q g c None p))) = now (server p) + 10) \<and>
           (\<forall>i f rest txt m.
              entries st = (i, f) # rest \<and> map_of f ''message'' = Some txt \<and> loads txt = Inr m \<longrightarrow>
              fst (queue_consumer loads q g c None p) =
                Some \<lparr>queue_name = q, group_name = g, msg_id = i, message = m\<rparr> \<and>
              map_of (groups st') g = Some \<lparr>last_delivered = i, pending = [(i, c)]\<rparr>)"
proof -
  let ?g0 = "\<lparr>last_delivered = 0, pending = []\<rparr>"
  have notin: "g \<notin> fst ` set (groups st)" using st(2) by (simp add: in_keys)
  have m: "map_of (groups st @ [(g, ?g0)]) g = Some ?g0"
    using st(2) by (simp add: map_add_def)
  have all: "filter (\<lambda>(j, f). 0 < j) (entries st) = entries st"
    using pos by (auto simp: filter_id_conv)
  show ?thesis
  proof (cases "entries st")
    case Nil
    with p st notin m show ?thesis
      by (simp add: queue_consumer_def queue_consumer_try_def call_cases r_xinfo_groups_def
                    r_xgroup_create_def r_xreadgroup_def Let_def)
  next
    case (Cons e rest)
    obtain i f where e: "e = (i, f)" by (cases e)
    have ipos: "0 < i" using pos Cons e by auto
    have new: "filter (\<lambda>(j, f). 0 < j) ((i, f) # rest) = (i, f) # rest"
      using all Cons e by simp
    show ?thesis
      using p st notin m new Cons e ipos
      by (auto simp: queue_consumer_def queue_consumer_try_def call_cases r_xinfo_groups_def
                     r_xgroup_create_def r_xreadgroup_def Let_def Payload_def update_conv'
                     logging_def
               split: sum.splits simp del: filter.simps)
  qed
qed

lemma consume_absent:
  assumes "REDIS p" "up (server p)" "streams (server p) q = None"
  shows "fst (queue_consumer loads q g c sid p) = None \<and>
         server (snd (queue_consumer loads q g c sid p)) = server p \<and>
         logs (snd (queue_consumer loads q g c sid p)) = logs p \<and>
         sent (snd (queue_consumer loads q g c sid p)) = sent p @ [(''xinfo_groups'', q)]"
  using assms
  by (simp add: queue_consumer_def queue_consumer_try_def call_cases r_xinfo_groups_def
                no_such_key_def str_def)

text \<open>
  Claim C8, as the code has it. When the stream exists and the group does not,
  \<open>queue_consumer\<close> creates the group at id 0, the origin of the stream, and reads with
  count 1: if the stream holds no entry, the read waits its 10 s and the result is None;
  otherwise the oldest entry, produced before this first consume, is delivered to the
  consumer and is its one pending entry. When the stream itself does not exist, the
  \<^verbatim>\<open>xinfo_groups\<close> call raises ``no such key'': the error is swallowed without a log record,
  no group is created and the result is None.
\<close>

theorem queue_consumer_creates_group:
  "(REDIS p \<and> up (server p) \<and> streams (server p) q = Some st \<and> map_of (groups st) g = None \<and>
    (\<forall>(j, f) \<in> set (entries st). 0 < j) \<longrightarrow>
      (\<exists>st'. streams (server (snd (queue_consumer loads q g c None p))) q = Some st' \<and>
           entries st' = entries st \<and>
           sent (snd (queue_consumer loads q g c None p)) =
             sent p @ [(''xinfo_groups'', q), (''xgroup_create'', q), (''xreadgroup'', q)] \<and>
           (entries st = [] \<longrightarrow>
              fst (queue_consumer loads q g c None p) = None \<and>
              map_of (groups st') g = Some \<lparr>last_delivered = 0, pending = []\<rparr> \<and>
              now (server (snd (queue_consumer loads q g c None p))) = now (server p) + 10) \<and>
           (\<forall>i f rest txt m.
              entries st = (i, f) # rest \<and> map_of f ''message'' = Some txt \<and> loads txt = Inr m \<longrightarrow>
              fst (queue_consumer loads q g c None p) =
                Some \<lparr>queue_name = q, group_name = g, msg_id = i, message = m\<rparr> \<and>
              map_of (groups st') g = Some \<lparr>last_delivered = i, pending = [(i, c)]\<rparr>)))
   \<and> (REDIS p \<and> up (server p) \<and> streams (server p) q = None \<longrightarrow>
         fst (queue_consumer loads q g c None p) = None \<and>
         server (snd (queue_consumer loads q g c None p)) = server p \<and>
         logs (snd (queue_consumer loads q g c None p)) = logs p \<and>
         sent (snd (queue_consumer loads q g c None p)) = sent p @ [(''xinfo_groups'', q)])"
proof (intro conjI impI)
  assume "REDIS p \<and> up (server p) \<and> streams (server p) q = Some st \<and>
          map_of (groups st) g = None \<and> (\<forall>(j, f) \<in> set (entries st). 0 < j)"
  then have h: "REDIS p" "up (server p)" "streams (server p) q = Some st"
    "map_of (groups st) g = None" "\<forall>(j, f) \<in> set (entries st). 0 < j"
    by simp_all
  show "\<exists>st'. streams (server (snd (queue_consumer loads q g c None p))) q = Some st' \<and>
           entries st' = entries st \<and>
           sent (snd (queue_consumer loads q g c None p)) =
             sent p @ [(''xinfo_groups'', q), (''xgroup_create'', q), (''xreadgroup'', q)] \<and>
           (entries st = [] \<longrightarrow>
              fst (queue_consumer loads q g c None p) = None \<and>
              map_of (groups st') g = Some \<lparr>last_delivered = 0, pending = []\<rparr> \<and>
              now (server (snd (queue_consumer loads q g c None p))) = now (server p) + 10) \<and>
           (\<forall>i f rest txt m.
              entries st = (i, f) # rest \<and> map_of f ''message'' = Some txt \<and> loads txt = Inr m \<longrightarrow>
              fst (queue_consumer loads q g c None p) =
                Some \<lparr>queue_name = q, group_name = g, msg_id = i, message = m\<rparr> \<and>
              map_of (groups st') g = Some \<lparr>last_delivered = i, pending = [(i, c)]\<rparr>)"
    by (rule consume_existing [OF h])
next
  assume "REDIS p \<and> up (server p) \<and> streams (server p) q = None"
  then have h: "REDIS p" "up (server p)" "streams (server p) q = None" by simp_all
  note a = consume_absent [OF h, of loads g c None]
  show "fst (queue_consumer loads q g c None p) = None" using a by simp
  show "server (snd (queue_consumer loads q g c None p)) = server p" using a by simp
  show "logs (snd (queue_consumer loads q g c None p)) = logs p" using a by simp
  show "sent (snd (queue_consumer loads q g c None p)) = sent p @ [(''xinfo_groups'', q)]"
    using a by simp
qed

lemma produced_server:
  "REDIS produced \<and> up (server produced) \<and>
   streams (server produced) ''q'' =
     Some \<lparr>entries = [(1, [(''message'', ''hello'')])], last_id = 1, groups = []\<rparr>"
  by (simp add: produced_def queue_product_def numeral_3_eq_3 plain_def call_cases r_xadd_def
                REDIS_CONN_eq fresh_store_def Let_def)

theorem queue_consumer_creates_group_witness:
  "fst (queue_consumer plain ''q'' ''g'' ''c'' None produced) =
     Some \<lparr>queue_name = ''q'', group_name = ''g'', msg_id = 1, message = ''hello''\<rparr> \<and>
   (\<exists>st'. streams (server (snd (queue_consumer plain ''q'' ''g'' ''c'' None produced))) ''q'' =
            Some st' \<and>
          map_of (groups st') ''g'' = Some \<lparr>last_delivered = 1, pending = [(1, ''c'')]\<rparr>) \<and>
   fst (queue_consumer plain ''q'' ''g'' ''c'' None idle_stream) = None \<and>
   now (server (snd (queue_consumer plain ''q'' ''g'' ''c'' None idle_stream))) = 10 \<and>
   fst (queue_consumer plain ''q'' ''g'' ''c'' None (REDIS_CONN fresh_store)) = None \<and>
   server (snd (queue_consumer plain ''q'' ''g'' ''c'' None (REDIS_CONN fresh_store))) = fresh_store"
proof -
  let ?st1 = "\<lparr>entries = [(1, [(''message'', ''hello'')])], last_id = 1, groups = []\<rparr>"
  let ?st0 = "\<lparr>entries = [], last_id = 0, groups = []\<rparr>"
  have h1: "REDIS produced \<and> up (server produced) \<and> streams (server produced) ''q'' = Some ?st1 \<and>
            map_of (groups ?st1) ''g'' = None \<and> (\<forall>(j, f) \<in> set (entries ?st1). 0 < j)"
    using produced_server by simp
  have h0: "REDIS idle_stream \<and> up (server idle_stream) \<and>
            streams (server idle_stream) ''q'' = Some ?st0 \<and>
            map_of (groups ?st0) ''g'' = None \<and> (\<forall>(j, f) \<in> set (entries ?st0). 0 < j)"
    by (simp add: idle_stream_def REDIS_CONN_eq fresh_store_def)
  have hn: "REDIS (REDIS_CONN fresh_store) \<and> up (server (REDIS_CONN fresh_store)) \<and>
            streams (server (REDIS_CONN fresh_store)) ''q'' = None"
    by (simp add: REDIS_CONN_eq fresh_store_def)
  have n0: "now (server idle_stream) = 0" "server (REDIS_CONN fresh_store) = fresh_store"
    by (simp_all add: idle_stream_def REDIS_CONN_eq fresh_store_def)
  note T1 = queue_consumer_creates_group
              [where p = produced and q = "''q''" and st = ?st1 and g = "''g''" and c = "''c''"
                 and loads = plain, THEN conjunct1, THEN mp, OF h1]
  note T0 = queue_consumer_creates_group
              [where p = idle_stream and q = "''q''" and st = ?st0 and g = "''g''" and c = "''c''"
                 and loads = plain, THEN conjunct1, THEN mp, OF h0]
  note Tn = queue_consumer_creates_group
              [where p = "REDIS_CONN fresh_store" and q = "''q''" and g = "''g''" and c = "''c''"
                 and loads = plain, THEN conjunct2, THEN mp, OF hn]
  from T1 obtain st' where
    a: "streams (server (snd (queue_consumer plain ''q'' ''g'' ''c'' None produced))) ''q'' = Some st'"
    and b: "\<forall>i f rest txt m.
              entries ?st1 = (i, f) # rest \<and> map_of f ''message'' = Some txt \<and> plain txt = Inr m \<longrightarrow>
              fst (queue_consumer plain ''q'' ''g'' ''c'' None produced) =
                Some \<lparr>queue_name = ''q'', group_name = ''g'', msg_id = i, message = m\<rparr> \<and>
              map_of (groups st') ''g'' = Some \<lparr>last_delivered = i, pending = [(i, ''c'')]\<rparr>"
    by blast
  from b [rule_format, of 1 "[(''message'', ''hello'')]" "[]" "''hello''" "''hello''"]
  have c: "fst (queue_consumer plain ''q'' ''g'' ''c'' None produced) =
             Some \<lparr>queue_name = ''q'', group_name = ''g'', msg_id = 1, message = ''hello''\<rparr>"
    "map_of (groups st') ''g'' = Some \<lparr>last_delivered = 1, pending = [(1, ''c'')]\<rparr>"
    by (simp_all add: plain_def)
  from T0 have d: "fst (queue_consumer plain ''q'' ''g'' ''c'' None idle_stream) = None"
    "now (server (snd (queue_consumer plain ''q'' ''g'' ''c'' None idle_stream))) = 10"
    using n0 by auto
  from Tn n0 have e: "fst (queue_consumer plain ''q'' ''g'' ''c'' None (REDIS_CONN fresh_store)) = None"
    "server (snd (queue_consumer plain ''q'' ''g'' ''c'' None (REDIS_CONN fresh_store))) = fresh_store"
    by simp_all
  from a c d e show ?thesis by blast
qed

text \<open>
  Claim C8 as stated (the group is created whenever it does not exist yet) fails when the
  stream does not exist either: on a fresh store the consume call returns None and leaves
  no stream and no group behind.
\<close>

theorem queue_consumer_absent_stream_creates_nothing:
  "streams (server (REDIS_CONN fresh_store)) ''q'' = None \<and>
   fst (queue_consumer plain ''q'' ''g'' ''c'' None (REDIS_CONN fresh_store)) = None \<and>
   streams (server (snd (queue_consumer plain ''q'' ''g'' ''c'' None (REDIS_CONN fresh_store)))) ''q'' =
     None \<and>
   logs (snd (queue_consumer plain ''q'' ''g'' ''c'' None (REDIS_CONN fresh_store))) = []"
  by (simp add: queue_consumer_def queue_consumer_try_def call_cases r_xinfo_groups_def
                no_such_key_def str_def REDIS_CONN_eq fresh_store_def)

end
